theory Spec2Isabelle
  imports Main
begin

section \<open>The part of the ECMAScript Date object the program uses\<close>

text \<open>
  The program computes with JavaScript \<open>Date\<close> objects. A Date holds a time value: a number
  of milliseconds since 1970-01-01T00:00:00Z, or NaN (an Invalid Date). The time value is
  modelled as \<open>int option\<close>, with \<open>None\<close> for NaN. The functions below follow the
  abstract operations of the ECMAScript specification (Day, DayFromYear, InLeapYear,
  MakeDay, MakeTime, MakeDate, TimeClip, LocalTime, UTC, WeekDay) under their names there.

  The local time zone is the parameter \<open>tza\<close>: the offset of local time from UTC in
  milliseconds (LocalTZA), taken as constant, so daylight-saving transitions are not modelled.
  A browser in New York has \<open>tza = - 5 * msPerHour\<close> in winter, one in Kolkata has
  \<open>tza = 5 * msPerHour + 30 * msPerMinute\<close>.
\<close>

type_synonym timevalue = "int option"

definition msPerDay :: int where
  "msPerDay = 86400000"

definition msPerHour :: int where
  "msPerHour = 3600000"

definition msPerMinute :: int where
  "msPerMinute = 60000"

definition msPerSecond :: int where
  "msPerSecond = 1000"

definition Day :: "int \<Rightarrow> int" where
  "Day t = t div msPerDay"

definition InLeapYear :: "int \<Rightarrow> bool" where
  "InLeapYear y = (y mod 4 = 0 \<and> (y mod 100 \<noteq> 0 \<or> y mod 400 = 0))"

definition DayFromYear :: "int \<Rightarrow> int" where
  "DayFromYear y =
     365 * (y - 1970) + (y - 1969) div 4 - (y - 1901) div 100 + (y - 1601) div 400"

text \<open>The year of a day number: the largest \<open>y\<close> with \<open>DayFromYear y \<le> d\<close>. The estimate
  from the mean length of a year is off by at most one, which lemma
  \<open>YearFromDay_bounds\<close> below confirms.\<close>

definition YearFromDay :: "int \<Rightarrow> int" where
  "YearFromDay d =
     (let y = 1970 + (400 * d) div 146097
      in if DayFromYear (y + 1) \<le> d then y + 1
         else if d < DayFromYear y then y - 1
         else y)"

text \<open>The number of days of year \<open>y\<close> before its month \<open>m\<close> (0 = January; 12 is the
  end of the year).\<close>

definition daysBeforeMonth :: "int \<Rightarrow> nat \<Rightarrow> int" where
  "daysBeforeMonth y m =
     (let l = (if InLeapYear y then 1 else 0)
      in [0, 31, 59 + l, 90 + l, 120 + l, 151 + l, 181 + l, 212 + l, 243 + l, 273 + l,
          304 + l, 334 + l, 365 + l] ! m)"

definition DayWithinYear :: "int \<Rightarrow> int" where
  "DayWithinYear d = d - DayFromYear (YearFromDay d)"

definition MonthFromDay :: "int \<Rightarrow> nat" where
  "MonthFromDay d =
     length (filter (\<lambda>m. daysBeforeMonth (YearFromDay d) m \<le> DayWithinYear d) [1..<12])"

definition DateFromDay :: "int \<Rightarrow> int" where
  "DateFromDay d = DayWithinYear d - daysBeforeMonth (YearFromDay d) (MonthFromDay d) + 1"

definition WeekDay :: "int \<Rightarrow> int" where
  "WeekDay d = (d + 4) mod 7"

text \<open>MakeDay normalises a month outside 0..11 into the neighbouring years and lets the
  day of the month run over the ends of the month.\<close>

definition MakeDay :: "int \<Rightarrow> int \<Rightarrow> int \<Rightarrow> int" where
  "MakeDay year month date =
     (let ym = year + month div 12; mn = nat (month mod 12)
      in DayFromYear ym + daysBeforeMonth ym mn + date - 1)"

definition MakeTime :: "int \<Rightarrow> int \<Rightarrow> int \<Rightarrow> int \<Rightarrow> int" where
  "MakeTime hour minute sec ms =
     hour * msPerHour + minute * msPerMinute + sec * msPerSecond + ms"

definition MakeDate :: "int \<Rightarrow> int \<Rightarrow> int" where
  "MakeDate day time = day * msPerDay + time"

definition TimeClip :: "int \<Rightarrow> timevalue" where
  "TimeClip t = (if \<bar>t\<bar> \<le> 8640000000000000 then Some t else None)"

definition LocalTime :: "int \<Rightarrow> int \<Rightarrow> int" where
  "LocalTime tza t = t + tza"

definition UTC :: "int \<Rightarrow> int \<Rightarrow> int" where
  "UTC tza t = t - tza"

text \<open>\<open>new Date(year, month, date)\<close>: the arguments are local time, and a year from 0 to 99
  means 1900 + year.\<close>

definition Date_ymd :: "int \<Rightarrow> int \<Rightarrow> int \<Rightarrow> int \<Rightarrow> timevalue" where
  "Date_ymd tza year month date =
     (let yr = (if 0 \<le> year \<and> year \<le> 99 then 1900 + year else year)
      in TimeClip (UTC tza (MakeDate (MakeDay yr month date) 0)))"

definition getDate :: "int \<Rightarrow> timevalue \<Rightarrow> int option" where
  "getDate tza tv = map_option (\<lambda>t. DateFromDay (Day (LocalTime tza t))) tv"

definition getDay :: "int \<Rightarrow> timevalue \<Rightarrow> int option" where
  "getDay tza tv = map_option (\<lambda>t. WeekDay (Day (LocalTime tza t))) tv"

definition getTime :: "timevalue \<Rightarrow> int option" where
  "getTime tv = tv"

text \<open>\<open>d.setHours(hour, min, sec, ms)\<close> keeps the local day of \<open>d\<close> and replaces the time
  within the day. An hour or minute that is NaN, like a Date that is already invalid, gives
  an Invalid Date.\<close>

definition setHours :: "int \<Rightarrow> int option \<Rightarrow> int option \<Rightarrow> int \<Rightarrow> int \<Rightarrow> timevalue \<Rightarrow> timevalue" where
  "setHours tza hour minute sec ms tv =
     (case (tv, hour, minute) of
        (Some t, Some h, Some m) \<Rightarrow>
          TimeClip (UTC tza (MakeDate (Day (LocalTime tza t)) (MakeTime h m sec ms)))
      | _ \<Rightarrow> None)"

text \<open>\<open>d.toDateString()\<close> prints the local weekday, month, day and year of a valid Date.
  The program only compares two such texts for equality, so the model returns the local day
  number, which the text determines and is determined by; \<open>None\<close> stands for the text
  "Invalid Date".\<close>

definition toDateString :: "int \<Rightarrow> timevalue \<Rightarrow> int option" where
  "toDateString tza tv = map_option (\<lambda>t. Day (LocalTime tza t)) tv"

section \<open>CalendarGrid.jsx: the cells of the month grid\<close>

definition getDaysInMonth :: "int \<Rightarrow> int \<Rightarrow> int \<Rightarrow> int option" where
  "getDaysInMonth tza year month = getDate tza (Date_ymd tza year (month + 1) 0)"

definition getFirstDayOfMonth :: "int \<Rightarrow> int \<Rightarrow> int \<Rightarrow> int option" where
  "getFirstDayOfMonth tza year month = getDay tza (Date_ymd tza year month 1)"





section \<open>Strings, numbers and Date texts\<close>

text \<open>
  JavaScript strings are modelled as \<open>string\<close>, restricted to ASCII. A property that may
  be absent from an object is a \<open>string option\<close>, with \<open>None\<close> for \<open>undefined\<close>; the
  values the program handles are strings, as the response schemas it sends to the LLM
  prescribe, so properties of other JSON types are not modelled.
\<close>

definition truthy :: "string option \<Rightarrow> bool" where
  "truthy v = (case v of None \<Rightarrow> False | Some s \<Rightarrow> s \<noteq> [])"

text \<open>\<open>v || ''\<close>\<close>

definition orEmpty :: "string option \<Rightarrow> string" where
  "orEmpty v = (case v of None \<Rightarrow> [] | Some s \<Rightarrow> s)"

text \<open>A value inside a template literal: \<open>undefined\<close> prints as its name.\<close>

definition interpolate :: "string option \<Rightarrow> string" where
  "interpolate v = (case v of None \<Rightarrow> ''undefined'' | Some s \<Rightarrow> s)"

definition toLowerCase :: "string \<Rightarrow> string" where
  "toLowerCase s =
     map (\<lambda>c. if 65 \<le> (of_char c :: nat) \<and> (of_char c :: nat) \<le> 90
               then char_of ((of_char c :: nat) + 32) else c) s"

definition isDigit :: "char \<Rightarrow> bool" where
  "isDigit c = (48 \<le> (of_char c :: nat) \<and> (of_char c :: nat) \<le> 57)"

definition digitVal :: "char \<Rightarrow> int" where
  "digitVal c = int (of_char c) - 48"

text \<open>The value of a non-empty string of decimal digits.\<close>

definition decimal :: "string \<Rightarrow> int option" where
  "decimal s =
     (if s \<noteq> [] \<and> list_all isDigit s then Some (foldl (\<lambda>a c. 10 * a + digitVal c) 0 s)
      else None)"

text \<open>\<open>Number(s)\<close> on the strings the program meets: the empty string is 0 and a string
  of decimal digits is its value. Signs, fractions, exponents, radix prefixes and surrounding
  white space, which \<open>Number\<close> also reads, are left out of the model (they give \<open>None\<close>
  here), and no theorem below is about a time field of that form.\<close>

definition Number :: "string \<Rightarrow> int option" where
  "Number s = (if s = [] then Some 0 else decimal s)"

fun split :: "char \<Rightarrow> string \<Rightarrow> string list" where
  "split sep [] = [[]]"
| "split sep (c # cs) =
     (if c = sep then [] # split sep cs
      else case split sep cs of w # ws \<Rightarrow> (c # w) # ws | [] \<Rightarrow> [[c]])"

text \<open>
  \<open>new Date(text)\<close> reads the ECMAScript date-time string format. The model reads its two
  forms the program produces from well-formed fields: the date-only form \<open>YYYY-MM-DD\<close>,
  which ECMAScript interprets as UTC, and the date-time form \<open>YYYY-MM-DDTHH:mm\<close> without
  an offset, which it interprets as local time. Every other text is an Invalid Date in the
  model; ECMAScript leaves texts outside its format to the implementation, and no theorem
  below is about such a text.
\<close>

definition parseIsoDate :: "string \<Rightarrow> int option" where
  "parseIsoDate s =
     (if length s = 10 \<and> s ! 4 = CHR ''-'' \<and> s ! 7 = CHR ''-'' then
        (case (decimal (take 4 s), decimal (take 2 (drop 5 s)), decimal (drop 8 s)) of
           (Some y, Some m, Some d) \<Rightarrow>
             if 1 \<le> m \<and> m \<le> 12 \<and> 1 \<le> d
                \<and> d \<le> daysBeforeMonth y (nat m) - daysBeforeMonth y (nat m - 1)
             then Some (MakeDay y (m - 1) d) else None
         | _ \<Rightarrow> None)
      else None)"

definition parseIsoTime :: "string \<Rightarrow> int option" where
  "parseIsoTime s =
     (if length s = 5 \<and> s ! 2 = CHR '':'' then
        (case (decimal (take 2 s), decimal (drop 3 s)) of
           (Some h, Some m) \<Rightarrow>
             if (h \<le> 23 \<and> m \<le> 59) \<or> (h = 24 \<and> m = 0) then Some (MakeTime h m 0 0) else None
         | _ \<Rightarrow> None)
      else None)"

definition Date_parse :: "int \<Rightarrow> string \<Rightarrow> timevalue" where
  "Date_parse tza s =
     (if length s = 10 then
        (case parseIsoDate s of Some day \<Rightarrow> TimeClip (MakeDate day 0) | None \<Rightarrow> None)
      else if length s = 16 \<and> s ! 10 = CHR ''T'' then
        (case (parseIsoDate (take 10 s), parseIsoTime (drop 11 s)) of
           (Some day, Some t) \<Rightarrow> TimeClip (UTC tza (MakeDate day t))
         | _ \<Rightarrow> None)
      else None)"

text \<open>\<open>new Date(v)\<close> for a property \<open>v\<close>: \<open>new Date(undefined)\<close> is an Invalid Date.\<close>

definition Date_of :: "int \<Rightarrow> string option \<Rightarrow> timevalue" where
  "Date_of tza v = (case v of None \<Rightarrow> None | Some s \<Rightarrow> Date_parse tza s)"

text \<open>Comparison of numbers: every comparison with NaN is false.\<close>

definition gt :: "int option \<Rightarrow> int option \<Rightarrow> bool" where
  "gt a b = (case (a, b) of (Some x, Some y) \<Rightarrow> x > y | _ \<Rightarrow> False)"

definition strictEq :: "int option \<Rightarrow> int option \<Rightarrow> bool" where
  "strictEq a b = (case (a, b) of (Some x, Some y) \<Rightarrow> x = y | _ \<Rightarrow> False)"

section \<open>App: events, the event matcher and the day filter\<close>

text \<open>The fields of an event document, and an event of the list \<open>events\<close>: the document
  with the identifier the store gave it (\<open>{ id: doc.id, ...doc.data() }\<close>).\<close>

record eventData =
  title :: "string option"
  date :: "string option"
  time :: "string option"
  description :: "string option"
  locationType :: "string option"

record event = eventData +
  eid :: string

datatype exception = TypeError

text \<open>
  The callback of \<open>events.filter\<close> in the effect for proactive suggestions. \<open>now\<close> is the
  value of every \<open>new Date()\<close> of one run of the effect. Reading \<open>event.time.split\<close> of
  an event without \<open>time\<close> throws a TypeError.
\<close>

definition isMatchingUpcoming :: "int \<Rightarrow> int \<Rightarrow> string \<Rightarrow> event \<Rightarrow> exception + bool" where
  "isMatchingUpcoming tza now mockCurrentLocationType event =
     (let today = setHours tza (Some 0) (Some 0) 0 0 (Some now);
          locationMatches = (truthy (locationType event)
             \<and> toLowerCase (orEmpty (locationType event)) = toLowerCase mockCurrentLocationType);
          eventDate = setHours tza (Some 0) (Some 0) 0 0 (Date_of tza (date event));
          isUpcoming = gt (getTime eventDate) (getTime today)
      in if toDateString tza eventDate = toDateString tza today then
           (case time event of
              None \<Rightarrow> Inl TypeError
            | Some t \<Rightarrow>
               (let parts = map Number (split CHR '':'' t);
                    eventHour = (case parts of h # _ \<Rightarrow> h | _ \<Rightarrow> None);
                    eventMinute = (case parts of _ # m # _ \<Rightarrow> m | _ \<Rightarrow> None);
                    eventDateTime = setHours tza eventHour eventMinute 0 0 (Some now)
                in Inr (locationMatches \<and> gt (getTime eventDateTime) (Some now))))
         else Inr (locationMatches \<and> isUpcoming))"

text \<open>\<open>Array.prototype.filter\<close> with a callback that may throw: the first exception ends
  the loop.\<close>

fun filterThrowing :: "('a \<Rightarrow> exception + bool) \<Rightarrow> 'a list \<Rightarrow> exception + 'a list" where
  "filterThrowing p [] = Inr []"
| "filterThrowing p (x # xs) =
     (case p x of
        Inl e \<Rightarrow> Inl e
      | Inr keep \<Rightarrow>
         (case filterThrowing p xs of
            Inl e \<Rightarrow> Inl e
          | Inr ys \<Rightarrow> Inr (if keep then x # ys else ys)))"

text \<open>The full timestamp of an event, \<open>new Date(`${a.date}T${a.time}`).getTime()\<close>, and
  the comparator of the two \<open>sort\<close> calls.\<close>

definition eventTimestamp :: "int \<Rightarrow> event \<Rightarrow> int option" where
  "eventTimestamp tza a =
     getTime (Date_parse tza (interpolate (date a) @ ''T'' @ interpolate (time a)))"

definition compareEvents :: "int \<Rightarrow> event \<Rightarrow> event \<Rightarrow> int option" where
  "compareEvents tza a b =
     (case (eventTimestamp tza a, eventTimestamp tza b) of
        (Some dateA, Some dateB) \<Rightarrow> Some (dateA - dateB)
      | _ \<Rightarrow> None)"

text \<open>
  \<open>Array.prototype.sort\<close> is stable, and with a consistent comparator it orders the array
  by it; it is modelled as an insertion sort that treats a NaN from the comparator as 0, as
  ECMAScript does. Where some timestamp is NaN the comparator is not consistent and
  ECMAScript leaves the order to the implementation; the theorems below that depend on the
  order are about events whose timestamps are numbers.
\<close>

fun insertBy :: "('a \<Rightarrow> 'a \<Rightarrow> int option) \<Rightarrow> 'a \<Rightarrow> 'a list \<Rightarrow> 'a list" where
  "insertBy cmp x [] = [x]"
| "insertBy cmp x (y # ys) =
     (if (case cmp x y of Some v \<Rightarrow> v \<le> 0 | None \<Rightarrow> True) then x # y # ys
      else y # insertBy cmp x ys)"

definition sortBy :: "('a \<Rightarrow> 'a \<Rightarrow> int option) \<Rightarrow> 'a list \<Rightarrow> 'a list" where
  "sortBy cmp xs = foldr (insertBy cmp) xs []"

definition matchingUpcomingEvents :: "int \<Rightarrow> int \<Rightarrow> string \<Rightarrow> event list \<Rightarrow> exception + event list" where
  "matchingUpcomingEvents tza now mockCurrentLocationType events =
     (case filterThrowing (isMatchingUpcoming tza now mockCurrentLocationType) events of
        Inl e \<Rightarrow> Inl e
      | Inr matching \<Rightarrow> Inr (sortBy (compareEvents tza) matching))"

text \<open>The effect for proactive suggestions: the event it stores in
  \<open>proactiveSuggestion.eventDetails\<close>, or \<open>None\<close> where it stores \<open>null\<close>. The message
  text of the suggestion is not modelled.\<close>

definition proactiveSuggestion :: "int \<Rightarrow> int \<Rightarrow> string \<Rightarrow> event list \<Rightarrow> exception + event option" where
  "proactiveSuggestion tza now mockCurrentLocationType events =
     (if mockCurrentLocationType = [] \<or> length events = 0 then Inr None
      else case matchingUpcomingEvents tza now mockCurrentLocationType events of
             Inl e \<Rightarrow> Inl e
           | Inr [] \<Rightarrow> Inr None
           | Inr (suggestedEvent # _) \<Rightarrow> Inr (Some suggestedEvent))"

text \<open>The effect that fills \<open>filteredEvents\<close> from \<open>events\<close> and \<open>selectedDate\<close>.\<close>

definition filteredEvents :: "int \<Rightarrow> timevalue \<Rightarrow> event list \<Rightarrow> event list" where
  "filteredEvents tza selectedDate events =
     (let normalizedSelectedSelectedDate = setHours tza (Some 0) (Some 0) 0 0 selectedDate
      in filter (\<lambda>event.
           let eventDate = setHours tza (Some 0) (Some 0) 0 0 (Date_of tza (date event))
           in strictEq (getTime eventDate) (getTime normalizedSelectedSelectedDate)) events)"

text \<open>\<open>handleDayClick\<close> of CalendarGrid.jsx: the Date a click on the cell of day \<open>day\<close>
  selects; clicking a placeholder selects nothing.\<close>

definition handleDayClick :: "int \<Rightarrow> int \<Rightarrow> int \<Rightarrow> int option \<Rightarrow> timevalue option" where
  "handleDayClick tza currentYear currentMonth cell =
     (case cell of
        None \<Rightarrow> None
      | Some day \<Rightarrow> if day = 0 then None else Some (Date_ymd tza currentYear currentMonth day))"

section \<open>App: the store, the LLM and the state of the component\<close>

text \<open>
  The persistence collaborator is Cloud Firestore, reached through \<open>setDoc\<close>,
  \<open>updateDoc\<close> and \<open>deleteDoc\<close> on the collection of the user's events. A call is one
  of these with its arguments; \<open>updateDoc\<close> carries the fields of its update object in
  order. The collection is a map from document identifiers to documents.
\<close>

datatype call =
    SetDoc string eventData
  | UpdateDoc string "(string \<times> string option) list"
  | DeleteDoc string

datatype 'a parsedText = ParseThrows | ParsedValue 'a

datatype 'a body = BodyThrows | NoCandidates | Candidate "'a parsedText"

datatype 'a response = FetchRejects | NotOk | Ok "'a body"

record change =
  type :: "string option"
  eventDetails :: "eventData option"
  eventId :: "string option"
  newTime :: "string option"
  eventTitle :: "string option"

record suggestion =
  summary :: "string option"
  changes :: "change list"

datatype warning =
    RetryingLLM int nat
  | DbNotReady
  | UnknownChange change

text \<open>What a retry loop does towards the network, step by step: \<open>Attempt k\<close> is the
  call of \<open>fetch\<close> for request number \<open>k\<close> (counted from 0), and \<open>Wait d\<close> is the
  awaited \<open>setTimeout\<close> of \<open>d\<close> milliseconds.\<close>

datatype step = Attempt nat | Wait int

text \<open>
  The state: the React state of \<open>App\<close> that the handlers read or set, with
  \<open>dbReady\<close> for \<open>db && userId\<close>, and the world the handlers act on: the collection
  \<open>store\<close>, the Firestore calls issued so far (\<open>writes\<close>, oldest first), the number of
  \<open>fetch\<close> calls issued, the delays awaited with \<open>setTimeout\<close>, the two of them
  interleaved in the order in which they happen (\<open>trace\<close>), and the warnings logged.
\<close>

record app =
  eventInput :: string
  events :: "event list"
  parsedEvent :: "eventData option"
  isLoading :: bool
  error :: string
  dbReady :: bool
  editingEvent :: "event option"
  editFormData :: eventData
  optimizationInput :: string
  optimizedSuggestions :: "suggestion list option"
  isOptimizing :: bool
  store :: "string \<rightharpoonup> eventData"
  writes :: "call list"
  requests :: nat
  sleeps :: "int list"
  trace :: "step list"
  warnings :: "warning list"

text \<open>
  What the program does not decide: which Firestore calls the back end rejects (the
  \<open>k\<close>-th call issued, counted from 0, with the message of the rejection), the identifier
  \<open>doc(collection)\<close> generates for it, whether the Gemini API key is configured, the time
  zone and the clock.
\<close>

record env =
  rejects :: "nat \<Rightarrow> string option"
  autoId :: "nat \<Rightarrow> string"
  geminiApiKey :: bool
  localTZA :: int
  clock :: int

definition setField :: "string \<Rightarrow> string \<Rightarrow> eventData \<Rightarrow> eventData" where
  "setField k v d =
     (if k = ''title'' then d\<lparr>title := Some v\<rparr>
      else if k = ''date'' then d\<lparr>date := Some v\<rparr>
      else if k = ''time'' then d\<lparr>time := Some v\<rparr>
      else if k = ''description'' then d\<lparr>description := Some v\<rparr>
      else if k = ''locationType'' then d\<lparr>locationType := Some v\<rparr>
      else d)"

fun applyFields :: "(string \<times> string option) list \<Rightarrow> eventData \<Rightarrow> eventData" where
  "applyFields [] d = d"
| "applyFields ((k, v) # fs) d = applyFields fs (setField k (orEmpty v) d)"

definition hasUndefined :: "eventData \<Rightarrow> bool" where
  "hasUndefined d =
     (title d = None \<or> date d = None \<or> time d = None \<or> description d = None
      \<or> locationType d = None)"

text \<open>
  One awaited Firestore call. The call is logged; it throws, with the state as it is then,
  when its data holds an \<open>undefined\<close> value (Firestore refuses those unless configured
  otherwise, and the program does not configure it), when the back end rejects it, and
  when \<open>updateDoc\<close> finds no document. Otherwise \<open>setDoc\<close> writes the document,
  \<open>updateDoc\<close> replaces the fields it names and \<open>deleteDoc\<close> removes the document, if
  any.
\<close>

definition firestore :: "env \<Rightarrow> call \<Rightarrow> app \<Rightarrow> (string \<times> app) + app" where
  "firestore e c s =
     (let s' = s\<lparr>writes := writes s @ [c]\<rparr>
      in if (case c of
               SetDoc i d \<Rightarrow> hasUndefined d
             | UpdateDoc i fs \<Rightarrow> \<exists>f \<in> set fs. snd f = None
             | DeleteDoc i \<Rightarrow> False)
         then Inl (''Unsupported field value: undefined'', s')
         else case rejects e (length (writes s)) of
           Some msg \<Rightarrow> Inl (msg, s')
         | None \<Rightarrow>
            (case c of
               SetDoc i d \<Rightarrow> Inr (s'\<lparr>store := (store s')(i \<mapsto> d)\<rparr>)
             | UpdateDoc i fs \<Rightarrow>
                 (case store s' i of
                    None \<Rightarrow> Inl (''No document to update'', s')
                  | Some d \<Rightarrow> Inr (s'\<lparr>store := (store s')(i \<mapsto> applyFields fs d)\<rparr>))
             | DeleteDoc i \<Rightarrow> Inr (s'\<lparr>store := (store s')(i := None)\<rparr>)))"

section \<open>App: handleParseEvent\<close>

definition isBlank :: "string \<Rightarrow> bool" where
  "isBlank s = list_all (\<lambda>c. (of_char c :: nat) \<in> {9, 10, 11, 12, 13, 32}) s"

text \<open>The decimal text of a number that is not negative.\<close>

fun digitsOf :: "nat \<Rightarrow> string" where
  "digitsOf n =
     (if n < 10 then [''0123456789'' ! n]
      else digitsOf (n div 10) @ [''0123456789'' ! (n mod 10)])"

definition toString :: "int \<Rightarrow> string" where
  "toString n = (if n < 0 then CHR ''-'' # digitsOf (nat (- n)) else digitsOf (nat n))"

definition getFullYear :: "int \<Rightarrow> int \<Rightarrow> int" where
  "getFullYear tza t = YearFromDay (Day (LocalTime tza t))"

text \<open>The two tests \<open>/^\d{2}-\d{2}$/\<close> and \<open>/^\d{2}-\d{2}-\d{2}$/\<close>.\<close>

definition matchesMD :: "string \<Rightarrow> bool" where
  "matchesMD s =
     (length s = 5 \<and> isDigit (s ! 0) \<and> isDigit (s ! 1) \<and> s ! 2 = CHR ''-''
      \<and> isDigit (s ! 3) \<and> isDigit (s ! 4))"

definition matchesYMD :: "string \<Rightarrow> bool" where
  "matchesYMD s =
     (length s = 8 \<and> isDigit (s ! 0) \<and> isDigit (s ! 1) \<and> s ! 2 = CHR ''-''
      \<and> isDigit (s ! 3) \<and> isDigit (s ! 4) \<and> s ! 5 = CHR ''-''
      \<and> isDigit (s ! 6) \<and> isDigit (s ! 7))"

text \<open>The \<open>catch (fetchError)\<close> block, which the two retry loops have in common but for
  the terminal message; it returns the new value of \<open>retries\<close> with the state.\<close>

definition catchFetchError :: "nat \<Rightarrow> int \<Rightarrow> string \<Rightarrow> nat \<Rightarrow> app \<Rightarrow> nat \<times> app" where
  "catchFetchError maxRetries baseDelay exhausted retries s =
     (let retries' = retries + 1
      in if retries' < maxRetries then
           (let delay = baseDelay * 2 ^ (retries' - 1)
            in (retries', s\<lparr>warnings := warnings s @ [RetryingLLM delay retries'],
                             sleeps := sleeps s @ [delay],
                             trace := trace s @ [Wait delay]\<rparr>))
         else (retries', s\<lparr>error := exhausted\<rparr>))"

text \<open>The terminal messages of the two loops, set when the retries are exhausted.\<close>

definition parseExhausted :: "nat \<Rightarrow> string" where
  "parseExhausted maxRetries =
     ''Failed to get a valid response from LLM after '' @ toString (int maxRetries)
       @ '' attempts. Please check your prompt or ensure your API key is correct and try again later.''"

definition optimizeExhausted :: "nat \<Rightarrow> string" where
  "optimizeExhausted maxRetries =
     ''Failed to get a valid response from LLM for optimization after ''
       @ toString (int maxRetries) @ '' attempts.''"

text \<open>
  The body of the \<open>if (parsed.title && parsed.date && parsed.time)\<close> branch. \<open>Inr\<close> is
  the path that reaches \<open>break\<close>; \<open>Inl\<close> is an exception from \<open>setDoc\<close>, which the
  enclosing \<open>try\<close> catches as a parse error.
\<close>

definition saveParsedEvent :: "env \<Rightarrow> eventData \<Rightarrow> app \<Rightarrow> (string \<times> app) + app" where
  "saveParsedEvent e parsed s =
     (let d = orEmpty (date parsed);
          finalDate = (if matchesMD d then toString (getFullYear (localTZA e) (clock e)) @ ''-'' @ d
                       else if matchesYMD d then ''20'' @ d
                       else d);
          finalParsedEvent = \<lparr>title = title parsed, date = Some finalDate, time = time parsed,
             description = Some (orEmpty (description parsed)),
             locationType = Some (orEmpty (locationType parsed))\<rparr>;
          s1 = s\<lparr>parsedEvent := Some finalParsedEvent\<rparr>
      in if dbReady s1 then
           (case firestore e (SetDoc (autoId e (length (writes s1))) finalParsedEvent) s1 of
              Inl x \<Rightarrow> Inl x
            | Inr s2 \<Rightarrow> Inr (s2\<lparr>eventInput := []\<rparr>))
         else
           Inr (s1\<lparr>events := events s1 @
                      [\<lparr>title = title finalParsedEvent, date = date finalParsedEvent,
                        time = time finalParsedEvent,
                        description = description finalParsedEvent,
                        locationType = locationType finalParsedEvent,
                        eid = toString (clock e)\<rparr>],
                    warnings := warnings s1 @ [DbNotReady],
                    eventInput := []\<rparr>))"

text \<open>
  The \<open>while (retries < maxRetries)\<close> loop of \<open>handleParseEvent\<close>. \<open>fetch k\<close> is what
  the \<open>k\<close>-th request of the run meets. Each turn of the loop uses one unit of \<open>fuel\<close>;
  \<open>None\<close> means that the loop is still running when the fuel is spent.
\<close>

fun parseLoop :: "nat \<Rightarrow> env \<Rightarrow> (nat \<Rightarrow> eventData response) \<Rightarrow> nat \<Rightarrow> int \<Rightarrow> nat \<Rightarrow> app \<Rightarrow> app option" where
  "parseLoop fuel e fetch maxRetries baseDelay retries s =
     (if \<not> retries < maxRetries then Some s
      else case fuel of
        0 \<Rightarrow> None
      | Suc fuel' \<Rightarrow>
         (let s1 = s\<lparr>requests := requests s + 1, trace := trace s @ [Attempt (requests s)]\<rparr>;
              caught = (\<lambda>u::unit.
                let (retries', s2) = catchFetchError maxRetries baseDelay
                  (parseExhausted maxRetries) retries s1
                in parseLoop fuel' e fetch maxRetries baseDelay retries' (s2\<lparr>isLoading := False\<rparr>));
              again = (\<lambda>msg s2.
                parseLoop fuel' e fetch maxRetries baseDelay retries
                  (s2\<lparr>error := msg, isLoading := False\<rparr>))
          in case fetch (requests s) of
               FetchRejects \<Rightarrow> caught ()
             | NotOk \<Rightarrow> caught ()
             | Ok BodyThrows \<Rightarrow> caught ()
             | Ok NoCandidates \<Rightarrow>
                 again ''LLM response was empty or malformed. Please try again.'' s1
             | Ok (Candidate ParseThrows) \<Rightarrow>
                 again ''Failed to parse LLM response JSON. The AI might have returned an unexpected format. Please try again.'' s1
             | Ok (Candidate (ParsedValue parsed)) \<Rightarrow>
                 if truthy (title parsed) \<and> truthy (date parsed) \<and> truthy (time parsed) then
                   (case saveParsedEvent e parsed s1 of
                      Inr s2 \<Rightarrow> Some (s2\<lparr>isLoading := False\<rparr>)
                    | Inl (msg, s2) \<Rightarrow>
                        again ''Failed to parse LLM response JSON. The AI might have returned an unexpected format. Please try again.'' s2)
                 else
                   again ''LLM returned incomplete or invalid event data. Please try rephrasing.'' s1))"

definition handleParseEvent :: "nat \<Rightarrow> env \<Rightarrow> (nat \<Rightarrow> eventData response) \<Rightarrow> app \<Rightarrow> app option" where
  "handleParseEvent fuel e fetch s =
     (if isBlank (eventInput s) then
        Some (s\<lparr>error := ''Please enter an event description.'', parsedEvent := None\<rparr>)
      else
        (let s1 = s\<lparr>isLoading := True, error := [], parsedEvent := None\<rparr>
         in if \<not> geminiApiKey e then
              Some (s1\<lparr>error := ''Gemini API Key is missing from .env file. Please add VITE_GEMINI_API_KEY.'',
                       isLoading := False\<rparr>)
            else parseLoop fuel e fetch 3 1000 0 s1))"

section \<open>App: handleEditEvent, handleCloseEditModal and handleUpdateEvent\<close>

definition handleEditEvent :: "event \<Rightarrow> app \<Rightarrow> app" where
  "handleEditEvent eventToEdit s =
     s\<lparr>editingEvent := Some eventToEdit,
       editFormData := \<lparr>title = title eventToEdit, date = date eventToEdit,
          time = time eventToEdit,
          description = Some (orEmpty (description eventToEdit)),
          locationType = Some (orEmpty (locationType eventToEdit))\<rparr>\<rparr>"

definition handleCloseEditModal :: "app \<Rightarrow> app" where
  "handleCloseEditModal s =
     s\<lparr>editingEvent := None,
       editFormData := \<lparr>title = Some [], date = Some [], time = Some [],
          description = Some [], locationType = Some []\<rparr>,
       error := []\<rparr>"

definition handleUpdateEvent :: "env \<Rightarrow> app \<Rightarrow> app" where
  "handleUpdateEvent e s =
     (case (dbReady s, editingEvent s) of
        (True, Some editing) \<Rightarrow>
          if \<not> truthy (title (editFormData s)) \<or> \<not> truthy (date (editFormData s))
             \<or> \<not> truthy (time (editFormData s))
          then s\<lparr>error := ''Title, Date, and Time are required for an event.''\<rparr>
          else
            (let s1 = s\<lparr>isLoading := True, error := []\<rparr>
             in case firestore e (UpdateDoc (eid editing)
                       [(''title'', title (editFormData s)),
                        (''date'', date (editFormData s)),
                        (''time'', time (editFormData s)),
                        (''description'', description (editFormData s)),
                        (''locationType'', locationType (editFormData s))]) s1 of
                  Inr s2 \<Rightarrow> (handleCloseEditModal s2)\<lparr>isLoading := False\<rparr>
                | Inl (msg, s2) \<Rightarrow>
                    s2\<lparr>error := ''Failed to update event: '' @ msg, isLoading := False\<rparr>)
      | _ \<Rightarrow> s\<lparr>error := ''Firebase is not initialized, user is not authenticated, or no event selected for editing.''\<rparr>)"

section \<open>App: handleOptimizeSchedule\<close>

text \<open>The \<open>while\<close> loop of \<open>handleOptimizeSchedule\<close>. The parsed text of a response is
  the array \<open>parsedSuggestions.suggestions\<close>, or \<open>None\<close> where that is not an array.\<close>

fun optimizeLoop :: "nat \<Rightarrow> (nat \<Rightarrow> suggestion list option response) \<Rightarrow> nat \<Rightarrow> int \<Rightarrow> nat \<Rightarrow> app \<Rightarrow> app option" where
  "optimizeLoop fuel fetch maxRetries baseDelay retries s =
     (if \<not> retries < maxRetries then Some s
      else case fuel of
        0 \<Rightarrow> None
      | Suc fuel' \<Rightarrow>
         (let s1 = s\<lparr>requests := requests s + 1, trace := trace s @ [Attempt (requests s)]\<rparr>;
              caught = (\<lambda>u::unit.
                let (retries', s2) = catchFetchError maxRetries baseDelay
                  (optimizeExhausted maxRetries) retries s1
                in optimizeLoop fuel' fetch maxRetries baseDelay retries' (s2\<lparr>isOptimizing := False\<rparr>));
              again = (\<lambda>msg.
                optimizeLoop fuel' fetch maxRetries baseDelay retries
                  (s1\<lparr>error := msg, isOptimizing := False\<rparr>))
          in case fetch (requests s) of
               FetchRejects \<Rightarrow> caught ()
             | NotOk \<Rightarrow> caught ()
             | Ok BodyThrows \<Rightarrow> caught ()
             | Ok NoCandidates \<Rightarrow>
                 again ''LLM optimization response was empty or malformed. Please try again.''
             | Ok (Candidate ParseThrows) \<Rightarrow>
                 again ''Failed to parse LLM optimization response JSON. Please try again.''
             | Ok (Candidate (ParsedValue None)) \<Rightarrow>
                 again ''LLM returned an invalid suggestion format. Please try rephrasing.''
             | Ok (Candidate (ParsedValue (Some suggestions))) \<Rightarrow>
                 Some (s1\<lparr>optimizedSuggestions := Some suggestions, optimizationInput := [],
                          isOptimizing := False\<rparr>)))"

definition handleOptimizeSchedule :: "nat \<Rightarrow> env \<Rightarrow> (nat \<Rightarrow> suggestion list option response) \<Rightarrow> app \<Rightarrow> app option" where
  "handleOptimizeSchedule fuel e fetch s =
     (if isBlank (optimizationInput s) then
        Some (s\<lparr>error := ''Please describe the schedule change or task for optimization.''\<rparr>)
      else
        (let s1 = s\<lparr>isOptimizing := True, error := [], optimizedSuggestions := None\<rparr>
         in if \<not> geminiApiKey e then
              Some (s1\<lparr>error := ''Gemini API Key is missing. Cannot optimize schedule.'',
                       isOptimizing := False\<rparr>)
            else optimizeLoop fuel fetch 3 1000 0 s1))"

section \<open>App: handleAcceptSuggestion\<close>

text \<open>One turn of the loop \<open>for (const change of suggestionChanges)\<close>. \<open>Inl\<close> is an
  exception of the awaited Firestore call, with its message and the state when it is
  thrown.\<close>

definition applyChange :: "env \<Rightarrow> change \<Rightarrow> app \<Rightarrow> (string \<times> app) + app" where
  "applyChange e change s =
     (case (if type change = Some ''add'' then eventDetails change else None) of
        Some details \<Rightarrow>
          (let newEventData = \<lparr>title = title details, date = date details, time = time details,
                 description = Some (orEmpty (description details)),
                 locationType = Some (orEmpty (locationType details))\<rparr>
           in firestore e (SetDoc (autoId e (length (writes s))) newEventData) s)
      | None \<Rightarrow>
         if type change = Some ''move'' \<and> truthy (eventId change) \<and> truthy (newTime change)
         then firestore e (UpdateDoc (orEmpty (eventId change)) [(''time'', newTime change)]) s
         else if type change = Some ''delete'' \<and> truthy (eventId change)
         then firestore e (DeleteDoc (orEmpty (eventId change))) s
         else Inr (s\<lparr>warnings := warnings s @ [UnknownChange change]\<rparr>))"

fun applyChanges :: "env \<Rightarrow> change list \<Rightarrow> app \<Rightarrow> (string \<times> app) + app" where
  "applyChanges e [] s = Inr s"
| "applyChanges e (change # rest) s =
     (case applyChange e change s of
        Inl x \<Rightarrow> Inl x
      | Inr s' \<Rightarrow> applyChanges e rest s')"

definition handleAcceptSuggestion :: "env \<Rightarrow> change list \<Rightarrow> app \<Rightarrow> app" where
  "handleAcceptSuggestion e suggestionChanges s =
     (if \<not> dbReady s then
        s\<lparr>error := ''Firebase not initialized or user not authenticated. Cannot apply changes.''\<rparr>
      else
        (case applyChanges e suggestionChanges (s\<lparr>isLoading := True, error := []\<rparr>) of
           Inr s' \<Rightarrow> s'\<lparr>optimizedSuggestions := None, optimizationInput := [], isLoading := False\<rparr>
         | Inl (msg, s') \<Rightarrow>
             s'\<lparr>error := ''Failed to apply optimization: '' @ msg, isLoading := False\<rparr>))"

section \<open>Notions the statements below use\<close>

text \<open>A response with a successful status whose body has the wrong shape: no candidate text,
  a text that is not JSON, or an object in which \<open>title\<close>, \<open>date\<close> or \<open>time\<close> is
  missing or empty.\<close>

fun shapeError :: "eventData response \<Rightarrow> bool" where
  "shapeError (Ok NoCandidates) = True"
| "shapeError (Ok (Candidate ParseThrows)) = True"
| "shapeError (Ok (Candidate (ParsedValue parsed))) =
     (\<not> (truthy (title parsed) \<and> truthy (date parsed) \<and> truthy (time parsed)))"
| "shapeError _ = False"

fun suggestionShapeError :: "suggestion list option response \<Rightarrow> bool" where
  "suggestionShapeError (Ok NoCandidates) = True"
| "suggestionShapeError (Ok (Candidate ParseThrows)) = True"
| "suggestionShapeError (Ok (Candidate (ParsedValue None))) = True"
| "suggestionShapeError _ = False"

text \<open>The steps of a retry loop whose every attempt fails at the transport, from the turn
  at which \<open>retries = r\<close> and \<open>k\<close> requests were sent: each attempt but the last one is
  followed by a wait, which doubles from one failure to the next.\<close>

definition failureTrace :: "int \<Rightarrow> nat \<Rightarrow> nat \<Rightarrow> nat \<Rightarrow> step list" where
  "failureTrace baseDelay k r maxRetries =
     concat (map (\<lambda>i. Attempt (k + (i - r))
                         # (if i + 1 < maxRetries then [Wait (baseDelay * 2 ^ i)] else []))
                 [r..<maxRetries])"

text \<open>The Firestore call that \<open>handleAcceptSuggestion\<close> issues for one change operation
  when \<open>k\<close> calls were issued before it, or \<open>None\<close> for an operation it skips.\<close>

definition callOf :: "env \<Rightarrow> nat \<Rightarrow> change \<Rightarrow> call option" where
  "callOf e k change =
     (case (if type change = Some ''add'' then eventDetails change else None) of
        Some details \<Rightarrow>
          Some (SetDoc (autoId e k)
            \<lparr>title = title details, date = date details, time = time details,
             description = Some (orEmpty (description details)),
             locationType = Some (orEmpty (locationType details))\<rparr>)
      | None \<Rightarrow>
         if type change = Some ''move'' \<and> truthy (eventId change) \<and> truthy (newTime change)
         then Some (UpdateDoc (orEmpty (eventId change)) [(''time'', newTime change)])
         else if type change = Some ''delete'' \<and> truthy (eventId change)
         then Some (DeleteDoc (orEmpty (eventId change)))
         else None)"

fun callsOf :: "env \<Rightarrow> nat \<Rightarrow> change list \<Rightarrow> call list" where
  "callsOf e k [] = []"
| "callsOf e k (change # rest) =
     (case callOf e k change of
        None \<Rightarrow> callsOf e k rest
      | Some c \<Rightarrow> c # callsOf e (k + 1) rest)"

text \<open>An operation that lacks what its type needs, or whose type is none of the three.\<close>

definition incompleteChange :: "change \<Rightarrow> bool" where
  "incompleteChange change =
     ((type change = Some ''add'' \<and> eventDetails change = None)
      \<or> (type change = Some ''move'' \<and> (\<not> truthy (eventId change) \<or> \<not> truthy (newTime change)))
      \<or> (type change = Some ''delete'' \<and> \<not> truthy (eventId change))
      \<or> (type change \<noteq> Some ''add'' \<and> type change \<noteq> Some ''move''
          \<and> type change \<noteq> Some ''delete''))"

text \<open>The invariant of the data model: \<open>title\<close>, \<open>date\<close> and \<open>time\<close> are not empty, and
  \<open>description\<close> and \<open>locationType\<close> are present.\<close>

definition validEvent :: "eventData \<Rightarrow> bool" where
  "validEvent d =
     (truthy (title d) \<and> truthy (date d) \<and> truthy (time d)
      \<and> description d \<noteq> None \<and> locationType d \<noteq> None)"

text \<open>The day number of the \<open>date\<close> field of an event and the milliseconds into the day
  of its \<open>time\<close> field, where the fields are well formed: an ISO date \<open>YYYY-MM-DD\<close> and
  a 24-hour time \<open>HH:MM\<close>.\<close>

definition eventDay :: "event \<Rightarrow> int option" where
  "eventDay a = (case date a of None \<Rightarrow> None | Some d \<Rightarrow> parseIsoDate d)"

definition eventTime :: "event \<Rightarrow> int option" where
  "eventTime a = (case time a of None \<Rightarrow> None | Some t \<Rightarrow> parseIsoTime t)"

definition wellFormed :: "event \<Rightarrow> bool" where
  "wellFormed a = (eventDay a \<noteq> None \<and> eventTime a \<noteq> None)"

text \<open>The location tag of an event equals a label, case-insensitively.\<close>

definition labelMatches :: "string \<Rightarrow> event \<Rightarrow> bool" where
  "labelMatches label a =
     (truthy (locationType a) \<and> toLowerCase (orEmpty (locationType a)) = toLowerCase label)"

text \<open>The local calendar day of an instant, as a day number, and a clock that is not within
  two days of the ends of the range of Date.\<close>

definition localDay :: "int \<Rightarrow> int \<Rightarrow> int" where
  "localDay tza t = Day (LocalTime tza t)"

definition clockInRange :: "int \<Rightarrow> bool" where
  "clockInRange t = (\<bar>t\<bar> \<le> 8640000000000000 - 2 * msPerDay)"

text \<open>Every document of the collection satisfies the invariant.\<close>

definition allValid :: "app \<Rightarrow> bool" where
  "allValid s = (\<forall>i d. store s i = Some d \<longrightarrow> validEvent d)"

text \<open>An environment in which Firestore rejects nothing, and sample data.\<close>

definition quietEnv :: "int \<Rightarrow> int \<Rightarrow> env" where
  "quietEnv tza now =
     \<lparr>rejects = (\<lambda>k. None), autoId = (\<lambda>k. ''doc'' @ toString (int k)), geminiApiKey = True,
      localTZA = tza, clock = now\<rparr>"

definition sampleEvent :: "string \<Rightarrow> string \<Rightarrow> string \<Rightarrow> string \<Rightarrow> event" where
  "sampleEvent i d t l =
     \<lparr>title = Some ''Workout'', date = Some d, time = Some t, description = Some [],
      locationType = Some l, eid = i\<rparr>"

definition sampleDoc :: "string \<Rightarrow> string \<Rightarrow> eventData" where
  "sampleDoc d t =
     \<lparr>title = Some ''Meeting'', date = Some d, time = Some t, description = Some [],
      locationType = Some []\<rparr>"

definition deleteOp :: "string \<Rightarrow> change" where
  "deleteOp i =
     \<lparr>type = Some ''delete'', eventDetails = None, eventId = Some i, newTime = None,
      eventTitle = None\<rparr>"

definition moveOp :: "string \<Rightarrow> string \<Rightarrow> change" where
  "moveOp i t =
     \<lparr>type = Some ''move'', eventDetails = None, eventId = Some i, newTime = Some t,
      eventTitle = None\<rparr>"

definition addOp :: "eventData \<Rightarrow> change" where
  "addOp d =
     \<lparr>type = Some ''add'', eventDetails = Some d, eventId = None, newTime = None,
      eventTitle = None\<rparr>"

definition emptyObject :: eventData where
  "emptyObject =
     \<lparr>title = None, date = None, time = None, description = None, locationType = None\<rparr>"

definition untitled :: eventData where
  "untitled =
     \<lparr>title = Some [], date = Some ''2025-08-04'', time = Some ''09:00'', description = None,
      locationType = None\<rparr>"

definition lunch :: eventData where
  "lunch =
     \<lparr>title = Some ''Lunch'', date = Some ''2025-08-04'', time = Some ''13:00'',
      description = None, locationType = None\<rparr>"

text \<open>An environment in which Firestore rejects its \<open>n\<close>-th call and no other.\<close>

definition rejectNth :: "nat \<Rightarrow> env" where
  "rejectNth n =
     (quietEnv 0 0)\<lparr>rejects := (\<lambda>k. if k = n then Some ''unavailable'' else None)\<rparr>"

text \<open>The length of a month of the Gregorian calendar (0 = January), and the year that
  \<open>new Date(year, month, date)\<close> takes its first argument for.\<close>

definition monthLength :: "int \<Rightarrow> nat \<Rightarrow> int" where
  "monthLength y m =
     (if m = 1 then (if InLeapYear y then 29 else 28)
      else if m = 3 \<or> m = 5 \<or> m = 8 \<or> m = 10 then 30
      else 31)"

definition yearOfDate :: "int \<Rightarrow> int" where
  "yearOfDate year = (if 0 \<le> year \<and> year \<le> 99 then 1900 + year else year)"



text \<open>The state of \<open>App\<close> when it is mounted, before Firebase is ready, and an empty
  collection.\<close>

definition initialApp :: app where
  "initialApp =
     \<lparr>eventInput = [], events = [], parsedEvent = None, isLoading = False, error = [],
      dbReady = False, editingEvent = None,
      editFormData = \<lparr>title = Some [], date = Some [], time = Some [], description = Some [],
         locationType = Some []\<rparr>,
      optimizationInput = [], optimizedSuggestions = None, isOptimizing = False,
      store = Map.empty, writes = [], requests = 0, sleeps = [], trace = [],
      warnings = []\<rparr>"

definition twoEvents :: app where
  "twoEvents =
     initialApp\<lparr>dbReady := True,
       store := [''a'' \<mapsto> sampleDoc ''2025-08-04'' ''09:00'',
                 ''b'' \<mapsto> sampleDoc ''2025-08-04'' ''10:00'']\<rparr>"

text \<open>A zone five hours west of UTC without daylight saving (Bogota, Lima), and the
  instant 2025-08-04 13:00 there, which is 2025-08-04T18:00:00Z.\<close>

definition utcMinus5 :: int where
  "utcMinus5 = - 5 * msPerHour"

definition aug4_1300_utcMinus5 :: int where
  "aug4_1300_utcMinus5 = 1754330400000"

text \<open>The equations of the two loops are unfolded by hand, one turn at a time.\<close>

declare parseLoop.simps [simp del] optimizeLoop.simps [simp del]

section \<open>Facts about the Date model\<close>

lemma div_bounds:
  fixes a k :: int
  assumes "0 < k"
  shows "k * (a div k) \<le> a" and "a < k * (a div k) + k"
proof -
  have "a = k * (a div k) + a mod k" by simp
  moreover have "0 \<le> a mod k" "a mod k < k" using assms by simp_all
  ultimately show "k * (a div k) \<le> a" and "a < k * (a div k) + k" by linarith+
qed

lemma DayFromYear_bounds:
  "146097 * (y - 1970) - 506 \<le> 400 * DayFromYear y"
  "400 * DayFromYear y \<le> 146097 * (y - 1970) + 589"
proof -
  define a where "a = (y - 1969) div 4"
  define b where "b = (y - 1901) div 100"
  define c where "c = (y - 1601) div 400"
  have a: "4 * a \<le> y - 1969" "y - 1969 < 4 * a + 4"
    using div_bounds [of 4 "y - 1969"] by (simp_all add: a_def)
  have b: "100 * b \<le> y - 1901" "y - 1901 < 100 * b + 100"
    using div_bounds [of 100 "y - 1901"] by (simp_all add: b_def)
  have c: "400 * c \<le> y - 1601" "y - 1601 < 400 * c + 400"
    using div_bounds [of 400 "y - 1601"] by (simp_all add: c_def)
  have D: "DayFromYear y = 365 * (y - 1970) + a - b + c"
    by (simp add: DayFromYear_def a_def b_def c_def)
  have lo: "100 * y - 197200 \<le> 400 * a" "400 * b \<le> 4 * y - 7604" "y - 2000 \<le> 400 * c"
    using a(2) b(1) c(2) by simp_all
  have hi: "400 * a \<le> 100 * y - 196900" "4 * y - 8000 \<le> 400 * b" "400 * c \<le> y - 1601"
    using a(1) b(2) c(1) by simp_all
  show "146097 * (y - 1970) - 506 \<le> 400 * DayFromYear y"
    unfolding D using lo by simp
  show "400 * DayFromYear y \<le> 146097 * (y - 1970) + 589"
    unfolding D using hi by simp
qed

text \<open>\<open>YearFromDay d\<close> is the year that contains day \<open>d\<close>.\<close>

lemma YearFromDay_bounds:
  "DayFromYear (YearFromDay d) \<le> d" "d < DayFromYear (YearFromDay d + 1)"
proof -
  define q where "q = (400 * d) div 146097"
  have q: "146097 * q \<le> 400 * d" "400 * d < 146097 * q + 146097"
    using div_bounds [of 146097 "400 * d"] by (simp_all add: q_def)
  have Y: "YearFromDay d =
      (if DayFromYear (1970 + q + 1) \<le> d then 1970 + q + 1
       else if d < DayFromYear (1970 + q) then 1970 + q - 1 else 1970 + q)"
    by (simp add: YearFromDay_def Let_def q_def)
  have "146097 * (q + 2) - 506 \<le> 400 * DayFromYear (1970 + q + 1 + 1)"
    using DayFromYear_bounds(1) [of "1970 + q + 1 + 1"] by simp
  then have up: "d < DayFromYear (1970 + q + 1 + 1)"
    using q by simp
  have "400 * DayFromYear (1970 + q - 1) \<le> 146097 * (q - 1) + 589"
    using DayFromYear_bounds(2) [of "1970 + q - 1"] by simp
  then have lo: "DayFromYear (1970 + q - 1) \<le> d"
    using q by simp
  show "DayFromYear (YearFromDay d) \<le> d"
    unfolding Y using lo by auto
  show "d < DayFromYear (YearFromDay d + 1)"
    unfolding Y using up by auto
qed

lemma DateFromDay_pos: "1 \<le> DateFromDay d"
proof -
  define Y where "Y = YearFromDay d"
  define w where "w = DayWithinYear d"
  have w0: "0 \<le> w"
    using YearFromDay_bounds(1) [of d] by (simp add: w_def DayWithinYear_def)
  have e: "[1..<12] = [1, 2, 3, 4, 5, 6, 7, 8, 9, 10, Suc 10]"
    by (simp add: upt_rec)
  have "daysBeforeMonth Y (length (filter (\<lambda>m. daysBeforeMonth Y m \<le> w) [1..<12])) \<le> w"
    unfolding e using w0 by (simp add: daysBeforeMonth_def Let_def)
  then show ?thesis
    by (simp add: DateFromDay_def MonthFromDay_def Y_def w_def)
qed




lemma div_eqI:
  fixes k q x :: int
  assumes "0 < k" "k * q \<le> x" "x < k * q + k"
  shows "x div k = q"
proof -
  have "x = k * q + (x - k * q)" by simp
  moreover have "0 \<le> x - k * q" "x - k * q < k" using assms by simp_all
  ultimately have "x div k = q + (x - k * q) div k"
    using assms(1) by (metis div_mult_self4 less_irrefl)
  then show ?thesis using \<open>0 \<le> x - k * q\<close> \<open>x - k * q < k\<close> by (simp add: div_pos_pos_trivial)
qed

lemma div_succ:
  fixes a k :: int
  assumes "0 < k"
  shows "(a + 1) div k = a div k + (if (a + 1) mod k = 0 then 1 else 0)"
proof (cases "(a + 1) mod k = 0")
  case True
  then have e: "a + 1 = k * ((a + 1) div k)" by (metis mult_div_mod_eq add.right_neutral)
  have "a div k = (a + 1) div k - 1"
  proof (rule div_eqI [OF assms])
    show "k * ((a + 1) div k - 1) \<le> a" using e assms by (simp add: algebra_simps)
    show "a < k * ((a + 1) div k - 1) + k" using e by (simp add: algebra_simps)
  qed
  with True show ?thesis by simp
next
  case False
  have b: "k * (a div k) \<le> a" "a < k * (a div k) + k" using div_bounds [OF assms] by auto
  have "a + 1 \<noteq> k * (a div k) + k"
  proof
    assume "a + 1 = k * (a div k) + k"
    then have "a + 1 = k * (a div k + 1)" by (simp add: algebra_simps)
    then have "(a + 1) mod k = 0" by simp
    with False show False by simp
  qed
  with b have "a + 1 < k * (a div k) + k" by simp
  with b have "(a + 1) div k = a div k" by (intro div_eqI [OF assms]) simp_all
  with False show ?thesis by simp
qed

lemma mod_shift:
  fixes y k c :: int
  shows "(y - k * c + 1) mod k = 0 \<longleftrightarrow> (y + 1) mod k = 0"
proof -
  have "(y - k * c + 1 + k * c) mod k = (y - k * c + 1) mod k" by (rule mod_mult_self2)
  then show ?thesis by simp
qed

lemma DayFromYear_succ:
  "DayFromYear (y + 1) = DayFromYear y + 365 + (if InLeapYear y then 1 else 0)"
proof -
  have m4: "(y - 1969 + 1) mod 4 = 0 \<longleftrightarrow> y mod 4 = 0"
    using mod_shift [of "y - 1" 4 492] by simp
  have m100: "(y - 1901 + 1) mod 100 = 0 \<longleftrightarrow> y mod 100 = 0"
    using mod_shift [of "y - 1" 100 19] by simp
  have m400: "(y - 1601 + 1) mod 400 = 0 \<longleftrightarrow> y mod 400 = 0"
    using mod_shift [of "y - 1" 400 4] by simp
  have a: "(y + 1 - 1969) div 4 = (y - 1969) div 4 + (if y mod 4 = 0 then 1 else 0)"
    using div_succ [of 4 "y - 1969"] m4 by (simp add: algebra_simps)
  have b: "(y + 1 - 1901) div 100 = (y - 1901) div 100 + (if y mod 100 = 0 then 1 else 0)"
    using div_succ [of 100 "y - 1901"] m100 by (simp add: algebra_simps)
  have c: "(y + 1 - 1601) div 400 = (y - 1601) div 400 + (if y mod 400 = 0 then 1 else 0)"
    using div_succ [of 400 "y - 1601"] m400 by (simp add: algebra_simps)
  have d1: "y mod 100 = 0" if "y mod 400 = 0"
  proof -
    have "(100 :: int) dvd 400" by simp
    moreover have "400 dvd y" using that by (rule mod_0_imp_dvd)
    ultimately have "100 dvd y" by (rule dvd_trans)
    then show ?thesis by (rule dvd_imp_mod_0)
  qed
  have d2: "y mod 4 = 0" if "y mod 100 = 0"
  proof -
    have "(4 :: int) dvd 100" by simp
    moreover have "100 dvd y" using that by (rule mod_0_imp_dvd)
    ultimately have "4 dvd y" by (rule dvd_trans)
    then show ?thesis by (rule dvd_imp_mod_0)
  qed
  consider "y mod 400 = 0" | "y mod 400 \<noteq> 0" "y mod 100 = 0"
    | "y mod 100 \<noteq> 0" "y mod 4 = 0" | "y mod 4 \<noteq> 0"
    by blast
  then show ?thesis
  proof cases
    case 1
    with d1 d2 have "y mod 100 = 0" "y mod 4 = 0" by simp_all
    with 1 show ?thesis by (simp only: DayFromYear_def a b c InLeapYear_def) simp
  next
    case 2
    with d2 have "y mod 4 = 0" by simp
    with 2 show ?thesis by (simp only: DayFromYear_def a b c InLeapYear_def) simp
  next
    case 3
    have "y mod 400 \<noteq> 0" using 3(1) d1 by (rule contrapos_nn)
    with 3 show ?thesis by (simp only: DayFromYear_def a b c InLeapYear_def) simp
  next
    case 4
    have n100: "y mod 100 \<noteq> 0" using 4 d2 by (rule contrapos_nn)
    then have "y mod 400 \<noteq> 0" using d1 by (rule contrapos_nn)
    with 4 n100 show ?thesis by (simp only: DayFromYear_def a b c InLeapYear_def) simp
  qed
qed




lemma month_cases:
  fixes k :: nat
  assumes "k < 12"
  obtains "k = 0" | "k = 1" | "k = 2" | "k = 3" | "k = 4" | "k = 5" | "k = 6" | "k = 7"
    | "k = 8" | "k = 9" | "k = 10" | "k = 11"
  using assms by atomize_elim arith

lemma daysBeforeMonth_Suc:
  assumes "k < 12"
  shows "daysBeforeMonth y (Suc k) = daysBeforeMonth y k + monthLength y k"
  using assms by (cases k rule: month_cases) (simp_all add: daysBeforeMonth_def monthLength_def Let_def)

lemma daysBeforeMonth_within_year:
  assumes "k < 12"
  shows "0 \<le> daysBeforeMonth y k"
    and "daysBeforeMonth y (Suc k) \<le> 365 + (if InLeapYear y then 1 else 0)"
  using assms by (cases k rule: month_cases; simp add: daysBeforeMonth_def Let_def)+


lemma monthLength_pos: "28 \<le> monthLength y k"
  by (simp add: monthLength_def)


text \<open>Day 0 of the next month is the last day of this one.\<close>

lemma MakeDay_last:
  "MakeDay yr (month + 1) 0
     = MakeDay yr month (monthLength (yr + month div 12) (nat (month mod 12)))"
proof -
  define r where "r = month mod 12"
  have r: "0 \<le> r" "r < 12" by (simp_all add: r_def)
  have m: "(month + 1) mod 12 = (r + 1) mod 12" unfolding r_def by (simp add: mod_add_left_eq)
  have q: "(month + 1) div 12 = month div 12 + (if (month + 1) mod 12 = 0 then 1 else 0)"
    by (rule div_succ) simp
  show ?thesis
  proof (cases "r = 11")
    case True
    then have "(month + 1) mod 12 = 0" using m by simp
    with q have "(month + 1) div 12 = month div 12 + 1" by simp
    moreover have "DayFromYear (yr + (month div 12 + 1))
        = DayFromYear (yr + month div 12) + 365 + (if InLeapYear (yr + month div 12) then 1 else 0)"
      using DayFromYear_succ [of "yr + month div 12"] by (simp add: add.assoc)
    ultimately show ?thesis using \<open>(month + 1) mod 12 = 0\<close> True
      by (simp add: MakeDay_def Let_def r_def [symmetric] daysBeforeMonth_def monthLength_def)
  next
    case False
    with r have r': "r + 1 < 12" by simp
    then have m': "(month + 1) mod 12 = r + 1" using m r by simp
    with q r have q': "(month + 1) div 12 = month div 12" by simp
    have k: "nat r < 12" using r by simp
    have "nat (r + 1) = Suc (nat r)" using r by simp
    then show ?thesis
      by (simp add: MakeDay_def Let_def r_def [symmetric] m' q' daysBeforeMonth_Suc [OF k])
  qed
qed



section \<open>The month grid\<close>













text \<open>The two helpers return numbers at every month of the years -271000 to 275000, in
  every time zone.\<close>

lemma helpers_defined:
  assumes y: "- 271000 \<le> year" "year \<le> 275000"
      and m: "0 \<le> month" "month \<le> 11"
      and z: "\<bar>tza\<bar> \<le> msPerDay"
  shows "\<exists>f n. getFirstDayOfMonth tza year month = Some f
             \<and> getDaysInMonth tza year month = Some n"
proof -
  define yr where "yr = yearOfDate year"
  define k where "k = nat month"
  have yr: "- 271000 \<le> yr" "yr \<le> 275000" using y by (simp_all add: yr_def yearOfDate_def)
  have k: "k < 12" using m by (simp add: k_def)
  have md: "month div 12 = 0" "nat (month mod 12) = k" using m by (simp_all add: k_def)
  have "400 * DayFromYear yr \<le> 146097 * (yr - 1970) + 589" by (rule DayFromYear_bounds)
  also have "\<dots> \<le> 146097 * (275000 - 1970) + 589" using yr by simp
  finally have up: "DayFromYear yr \<le> 99900000" by simp
  have "146097 * (- 271000 - 1970) - 506 \<le> 146097 * (yr - 1970) - 506" using yr by simp
  also have "\<dots> \<le> 400 * DayFromYear yr" by (rule DayFromYear_bounds)
  finally have lo: "- 99900000 \<le> DayFromYear yr" by simp
  have b: "0 \<le> daysBeforeMonth yr k" "daysBeforeMonth yr k + monthLength yr k \<le> 366"
    using daysBeforeMonth_within_year [OF k, of yr]
    by (simp_all add: daysBeforeMonth_Suc [OF k] split: if_splits)
  have L: "28 \<le> monthLength yr k" by (rule monthLength_pos)
  have clip: "TimeClip (UTC tza (MakeDate (MakeDay yr month d) 0)) \<noteq> None"
    if d: "1 \<le> d" "d \<le> monthLength yr k" for d
  proof -
    let ?x = "MakeDay yr month d"
    have x: "- 99900000 \<le> ?x" "?x \<le> 99900366"
      using lo up b d by (simp_all add: MakeDay_def Let_def md)
    then have "- 99900000 * msPerDay \<le> ?x * msPerDay" "?x * msPerDay \<le> 99900366 * msPerDay"
      by (simp_all add: msPerDay_def)
    then have "\<bar>?x * msPerDay - tza\<bar> \<le> 8640000000000000"
      using z by (simp add: msPerDay_def)
    then show ?thesis by (simp add: TimeClip_def UTC_def MakeDate_def)
  qed
  have "TimeClip (UTC tza (MakeDate (MakeDay yr month 1) 0)) \<noteq> None"
    using L by (intro clip) simp_all
  then have "getFirstDayOfMonth tza year month \<noteq> None"
    by (simp add: getFirstDayOfMonth_def getDay_def Date_ymd_def Let_def
          yearOfDate_def [symmetric] yr_def)
  moreover have "TimeClip (UTC tza (MakeDate (MakeDay yr month (monthLength yr k)) 0)) \<noteq> None"
    using L by (intro clip) simp_all
  then have "TimeClip (UTC tza (MakeDate (MakeDay yr (month + 1) 0) 0)) \<noteq> None"
    by (simp add: MakeDay_last md)
  then have "getDaysInMonth tza year month \<noteq> None"
    by (simp add: getDaysInMonth_def getDate_def Date_ymd_def Let_def
          yearOfDate_def [symmetric] yr_def)
  ultimately show ?thesis by auto
qed


section \<open>The retry loops\<close>

lemma parseLoop_done:
  "\<not> retries < maxRetries \<Longrightarrow> parseLoop fuel e fetch maxRetries baseDelay retries s = Some s"
  by (simp add: parseLoop.simps)

lemma parseLoop_caught:
  assumes "retries < maxRetries"
      and "fetch (requests s) = FetchRejects \<or> fetch (requests s) = NotOk"
  shows "parseLoop (Suc fuel) e fetch maxRetries baseDelay retries s =
     parseLoop fuel e fetch maxRetries baseDelay (retries + 1)
       ((snd (catchFetchError maxRetries baseDelay (parseExhausted maxRetries) retries
               (s\<lparr>requests := requests s + 1, trace := trace s @ [Attempt (requests s)]\<rparr>)))\<lparr>isLoading := False\<rparr>)"
  using assms
  by (auto simp: parseLoop.simps [of "Suc fuel"] Let_def catchFetchError_def)

lemma parseLoop_again:
  assumes "retries < maxRetries" and "shapeError (fetch (requests s))"
  shows "\<exists>msg. parseLoop (Suc fuel) e fetch maxRetries baseDelay retries s =
     parseLoop fuel e fetch maxRetries baseDelay retries
       (s\<lparr>requests := requests s + 1, trace := trace s @ [Attempt (requests s)],
         error := msg, isLoading := False\<rparr>)"
proof (cases "fetch (requests s)" rule: shapeError.cases)
  case 1
  then show ?thesis using assms by (auto simp: parseLoop.simps [of "Suc fuel"] Let_def)
next
  case 2
  then show ?thesis using assms by (auto simp: parseLoop.simps [of "Suc fuel"] Let_def)
next
  case (3 parsed)
  then show ?thesis using assms by (auto simp: parseLoop.simps [of "Suc fuel"] Let_def)
qed (use assms in auto)

lemma optimizeLoop_done:
  "\<not> retries < maxRetries \<Longrightarrow> optimizeLoop fuel fetch maxRetries baseDelay retries s = Some s"
  by (simp add: optimizeLoop.simps)

lemma optimizeLoop_caught:
  assumes "retries < maxRetries"
      and "fetch (requests s) = FetchRejects \<or> fetch (requests s) = NotOk"
  shows "optimizeLoop (Suc fuel) fetch maxRetries baseDelay retries s =
     optimizeLoop fuel fetch maxRetries baseDelay (retries + 1)
       ((snd (catchFetchError maxRetries baseDelay (optimizeExhausted maxRetries) retries
               (s\<lparr>requests := requests s + 1, trace := trace s @ [Attempt (requests s)]\<rparr>)))\<lparr>isOptimizing := False\<rparr>)"
  using assms
  by (auto simp: optimizeLoop.simps [of "Suc fuel"] Let_def catchFetchError_def)

lemma optimizeLoop_again:
  assumes "retries < maxRetries" and "suggestionShapeError (fetch (requests s))"
  shows "\<exists>msg. optimizeLoop (Suc fuel) fetch maxRetries baseDelay retries s =
     optimizeLoop fuel fetch maxRetries baseDelay retries
       (s\<lparr>requests := requests s + 1, trace := trace s @ [Attempt (requests s)],
         error := msg, isOptimizing := False\<rparr>)"
proof (cases "fetch (requests s)" rule: suggestionShapeError.cases)
  case 1
  then show ?thesis using assms by (auto simp: optimizeLoop.simps [of "Suc fuel"] Let_def)
next
  case 2
  then show ?thesis using assms by (auto simp: optimizeLoop.simps [of "Suc fuel"] Let_def)
next
  case 3
  then show ?thesis using assms by (auto simp: optimizeLoop.simps [of "Suc fuel"] Let_def)
qed (use assms in auto)

lemma failureTrace_done: "\<not> r < maxRetries \<Longrightarrow> failureTrace baseDelay k r maxRetries = []"
  by (simp add: failureTrace_def)

lemma failureTrace_step:
  assumes "r < maxRetries"
  shows "failureTrace baseDelay k r maxRetries =
     Attempt k # (if r + 1 < maxRetries then [Wait (baseDelay * 2 ^ r)] else [])
       @ failureTrace baseDelay (k + 1) (r + 1) maxRetries"
proof -
  let ?f = "\<lambda>i. Attempt (k + (i - r))
                  # (if i + 1 < maxRetries then [Wait (baseDelay * 2 ^ i)] else [])"
  have u: "[r..<maxRetries] = r # [r + 1..<maxRetries]"
    using assms by (simp add: upt_rec)
  have t: "concat (map ?f [r + 1..<maxRetries])
      = failureTrace baseDelay (k + 1) (r + 1) maxRetries"
    unfolding failureTrace_def
    by (rule arg_cong [where f = concat], rule map_cong) auto
  have "failureTrace baseDelay k r maxRetries = ?f r @ concat (map ?f [r + 1..<maxRetries])"
    unfolding failureTrace_def u by simp
  then show ?thesis unfolding t by simp
qed

lemma failureTrace_three:
  "failureTrace baseDelay k 0 3 =
     [Attempt k, Wait baseDelay, Attempt (k + 1), Wait (2 * baseDelay), Attempt (k + 2)]"
  by (simp add: failureTrace_def upt_rec numeral_3_eq_3)

text \<open>A transport that fails on every attempt: the loop makes \<open>maxRetries - retries\<close>
  further requests and waits \<open>baseDelay * 2 ^ k\<close> after the failure that takes \<open>retries\<close>
  from \<open>k\<close> to \<open>k + 1\<close>, except after the last one.\<close>

lemma parseLoop_all_fail:
  assumes fails: "\<forall>k. fetch k = FetchRejects \<or> fetch k = NotOk"
  shows "maxRetries - retries \<le> fuel \<Longrightarrow>
     \<exists>s'. parseLoop fuel e fetch maxRetries baseDelay retries s = Some s'
        \<and> requests s' = requests s + (maxRetries - retries)
        \<and> sleeps s' = sleeps s @ map (\<lambda>k. baseDelay * 2 ^ k) [retries..<maxRetries - 1]
        \<and> trace s' = trace s @ failureTrace baseDelay (requests s) retries maxRetries
        \<and> (retries < maxRetries \<longrightarrow> error s' = parseExhausted maxRetries)
        \<and> store s' = store s \<and> writes s' = writes s"
proof (induction "maxRetries - retries" arbitrary: retries fuel s)
  case 0
  then have "\<not> retries < maxRetries" by simp
  then show ?case by (simp add: parseLoop_done failureTrace_done)
next
  case (Suc n)
  then have lt: "retries < maxRetries" by simp
  from Suc obtain fuel' where fuel: "fuel = Suc fuel'" by (cases fuel) auto
  let ?s1 = "(snd (catchFetchError maxRetries baseDelay (parseExhausted maxRetries) retries
               (s\<lparr>requests := requests s + 1, trace := trace s @ [Attempt (requests s)]\<rparr>)))\<lparr>isLoading := False\<rparr>"
  have step: "parseLoop fuel e fetch maxRetries baseDelay retries s =
      parseLoop fuel' e fetch maxRetries baseDelay (retries + 1) ?s1"
    unfolding fuel using lt fails by (intro parseLoop_caught) auto
  have n: "n = maxRetries - (retries + 1)" using Suc.hyps(2) by simp
  have fuel': "maxRetries - (retries + 1) \<le> fuel'" using Suc.prems fuel by simp
  from Suc.hyps(1) [OF n fuel', of ?s1] obtain s' where
    s': "parseLoop fuel' e fetch maxRetries baseDelay (retries + 1) ?s1 = Some s'"
      "requests s' = requests ?s1 + (maxRetries - (retries + 1))"
      "sleeps s' = sleeps ?s1 @ map (\<lambda>k. baseDelay * 2 ^ k) [retries + 1..<maxRetries - 1]"
      "trace s' = trace ?s1 @ failureTrace baseDelay (requests ?s1) (retries + 1) maxRetries"
      "retries + 1 < maxRetries \<longrightarrow> error s' = parseExhausted maxRetries"
      "store s' = store ?s1" "writes s' = writes ?s1"
    by blast
  note ft = failureTrace_step [OF lt, of baseDelay "requests s"]
  show ?case
  proof (cases "retries + 1 < maxRetries")
    case True
    then have "[retries..<maxRetries - 1] = retries # [retries + 1..<maxRetries - 1]"
      by (simp add: upt_rec)
    with True s' step lt ft show ?thesis
      by (simp add: catchFetchError_def Let_def)
  next
    case False
    then have "parseLoop fuel' e fetch maxRetries baseDelay (retries + 1) ?s1 = Some ?s1"
      by (simp add: parseLoop_done)
    with False lt step ft show ?thesis
      by (simp add: catchFetchError_def Let_def failureTrace_done)
  qed
qed

lemma optimizeLoop_all_fail:
  assumes fails: "\<forall>k. fetch k = FetchRejects \<or> fetch k = NotOk"
  shows "maxRetries - retries \<le> fuel \<Longrightarrow>
     \<exists>s'. optimizeLoop fuel fetch maxRetries baseDelay retries s = Some s'
        \<and> requests s' = requests s + (maxRetries - retries)
        \<and> sleeps s' = sleeps s @ map (\<lambda>k. baseDelay * 2 ^ k) [retries..<maxRetries - 1]
        \<and> trace s' = trace s @ failureTrace baseDelay (requests s) retries maxRetries
        \<and> (retries < maxRetries \<longrightarrow> error s' = optimizeExhausted maxRetries)
        \<and> store s' = store s \<and> writes s' = writes s"
proof (induction "maxRetries - retries" arbitrary: retries fuel s)
  case 0
  then have "\<not> retries < maxRetries" by simp
  then show ?case by (simp add: optimizeLoop_done failureTrace_done)
next
  case (Suc n)
  then have lt: "retries < maxRetries" by simp
  from Suc obtain fuel' where fuel: "fuel = Suc fuel'" by (cases fuel) auto
  let ?s1 = "(snd (catchFetchError maxRetries baseDelay (optimizeExhausted maxRetries) retries
               (s\<lparr>requests := requests s + 1, trace := trace s @ [Attempt (requests s)]\<rparr>)))\<lparr>isOptimizing := False\<rparr>"
  have step: "optimizeLoop fuel fetch maxRetries baseDelay retries s =
      optimizeLoop fuel' fetch maxRetries baseDelay (retries + 1) ?s1"
    unfolding fuel using lt fails by (intro optimizeLoop_caught) auto
  have n: "n = maxRetries - (retries + 1)" using Suc.hyps(2) by simp
  have fuel': "maxRetries - (retries + 1) \<le> fuel'" using Suc.prems fuel by simp
  from Suc.hyps(1) [OF n fuel', of ?s1] obtain s' where
    s': "optimizeLoop fuel' fetch maxRetries baseDelay (retries + 1) ?s1 = Some s'"
      "requests s' = requests ?s1 + (maxRetries - (retries + 1))"
      "sleeps s' = sleeps ?s1 @ map (\<lambda>k. baseDelay * 2 ^ k) [retries + 1..<maxRetries - 1]"
      "trace s' = trace ?s1 @ failureTrace baseDelay (requests ?s1) (retries + 1) maxRetries"
      "retries + 1 < maxRetries \<longrightarrow> error s' = optimizeExhausted maxRetries"
      "store s' = store ?s1" "writes s' = writes ?s1"
    by blast
  note ft = failureTrace_step [OF lt, of baseDelay "requests s"]
  show ?case
  proof (cases "retries + 1 < maxRetries")
    case True
    then have "[retries..<maxRetries - 1] = retries # [retries + 1..<maxRetries - 1]"
      by (simp add: upt_rec)
    with True s' step lt ft show ?thesis
      by (simp add: catchFetchError_def Let_def)
  next
    case False
    then have "optimizeLoop fuel' fetch maxRetries baseDelay (retries + 1) ?s1 = Some ?s1"
      by (simp add: optimizeLoop_done)
    with False lt step ft show ?thesis
      by (simp add: catchFetchError_def Let_def failureTrace_done)
  qed
qed

lemma delays_of_three: "map (\<lambda>k. baseDelay * 2 ^ k) [0..<2] = [baseDelay, 2 * baseDelay]"
  for baseDelay :: int
  by (simp add: upt_rec)

text \<open>Shape errors: the loop goes round again with \<open>retries\<close> unchanged, so it never ends
  while the responses keep the wrong shape.\<close>

lemma parseLoop_shape_errors_diverge:
  assumes "\<forall>k. shapeError (fetch k)" and "retries < maxRetries"
  shows "parseLoop fuel e fetch maxRetries baseDelay retries s = None"
proof (induction fuel arbitrary: s)
  case 0
  show ?case using assms(2) by (simp add: parseLoop.simps)
next
  case (Suc fuel)
  from parseLoop_again [OF assms(2), of fetch s fuel e baseDelay] assms(1)
  obtain msg where "parseLoop (Suc fuel) e fetch maxRetries baseDelay retries s =
     parseLoop fuel e fetch maxRetries baseDelay retries
       (s\<lparr>requests := requests s + 1, trace := trace s @ [Attempt (requests s)],
         error := msg, isLoading := False\<rparr>)"
    by blast
  with Suc show ?case by simp
qed

lemma optimizeLoop_shape_errors_diverge:
  assumes "\<forall>k. suggestionShapeError (fetch k)" and "retries < maxRetries"
  shows "optimizeLoop fuel fetch maxRetries baseDelay retries s = None"
proof (induction fuel arbitrary: s)
  case 0
  show ?case using assms(2) by (simp add: optimizeLoop.simps)
next
  case (Suc fuel)
  from optimizeLoop_again [OF assms(2), of fetch s fuel baseDelay] assms(1)
  obtain msg where "optimizeLoop (Suc fuel) fetch maxRetries baseDelay retries s =
     optimizeLoop fuel fetch maxRetries baseDelay retries
       (s\<lparr>requests := requests s + 1, trace := trace s @ [Attempt (requests s)],
         error := msg, isOptimizing := False\<rparr>)"
    by blast
  with Suc show ?case by simp
qed

lemma exhausted_three:
  "parseExhausted 3 = ''Failed to get a valid response from LLM after 3 attempts. Please check your prompt or ensure your API key is correct and try again later.''"
  "optimizeExhausted 3 = ''Failed to get a valid response from LLM for optimization after 3 attempts.''"
  by (simp_all add: parseExhausted_def optimizeExhausted_def toString_def)

text \<open>
  Claim C3. With a transport that fails on every attempt (\<open>fetch\<close> rejects, or the
  status is not a success) and \<open>maxRetries = 3\<close>, either loop, given fuel for three turns,
  does exactly this: the first attempt, a wait of \<open>baseDelay\<close>, the second attempt, a wait
  of \<open>2 * baseDelay\<close>, the third attempt; then it ends and the error shown is the terminal
  message of the loop, which is none of the messages for a malformed response. The two
  handlers, which fix \<open>baseDelay = 1000\<close>, wait 1000 and 2000. The lemmas
  \<open>parseLoop_all_fail\<close> and \<open>optimizeLoop_all_fail\<close> give the general form: the wait
  after the \<open>k\<close>-th failure is \<open>baseDelay * 2 ^ (k - 1)\<close>.
\<close>

theorem retry_exhaustion:
  assumes "\<forall>k. fetch k = FetchRejects \<or> fetch k = NotOk"
      and "\<forall>k. fetch' k = FetchRejects \<or> fetch' k = NotOk"
      and "3 \<le> fuel"
  shows "(\<exists>s'. parseLoop fuel e fetch 3 baseDelay 0 s = Some s'
     \<and> requests s' = requests s + 3
     \<and> sleeps s' = sleeps s @ [baseDelay, 2 * baseDelay]
     \<and> trace s' = trace s @ [Attempt (requests s), Wait baseDelay, Attempt (requests s + 1),
                              Wait (2 * baseDelay), Attempt (requests s + 2)]
     \<and> error s' = ''Failed to get a valid response from LLM after 3 attempts. Please check your prompt or ensure your API key is correct and try again later.'')
       \<and> (\<exists>s'. optimizeLoop fuel fetch' 3 baseDelay 0 s = Some s'
     \<and> requests s' = requests s + 3
     \<and> sleeps s' = sleeps s @ [baseDelay, 2 * baseDelay]
     \<and> trace s' = trace s @ [Attempt (requests s), Wait baseDelay, Attempt (requests s + 1),
                              Wait (2 * baseDelay), Attempt (requests s + 2)]
     \<and> error s' = ''Failed to get a valid response from LLM for optimization after 3 attempts.'')
       \<and> (\<not> isBlank (eventInput s) \<and> geminiApiKey e \<longrightarrow>
            (\<exists>s'. handleParseEvent fuel e fetch s = Some s'
         \<and> requests s' = requests s + 3
         \<and> sleeps s' = sleeps s @ [1000, 2000]
         \<and> trace s' = trace s @ [Attempt (requests s), Wait 1000, Attempt (requests s + 1),
                                  Wait 2000, Attempt (requests s + 2)]
         \<and> error s' = ''Failed to get a valid response from LLM after 3 attempts. Please check your prompt or ensure your API key is correct and try again later.''))
       \<and> (\<not> isBlank (optimizationInput s) \<and> geminiApiKey e \<longrightarrow>
            (\<exists>s'. handleOptimizeSchedule fuel e fetch' s = Some s'
         \<and> requests s' = requests s + 3
         \<and> sleeps s' = sleeps s @ [1000, 2000]
         \<and> trace s' = trace s @ [Attempt (requests s), Wait 1000, Attempt (requests s + 1),
                                  Wait 2000, Attempt (requests s + 2)]
         \<and> error s' = ''Failed to get a valid response from LLM for optimization after 3 attempts.''))"
proof (intro conjI impI)
  have fuel: "3 - 0 \<le> fuel" using assms(3) by simp
  show "(\<exists>s'. parseLoop fuel e fetch 3 baseDelay 0 s = Some s'
     \<and> requests s' = requests s + 3
     \<and> sleeps s' = sleeps s @ [baseDelay, 2 * baseDelay]
     \<and> trace s' = trace s @ [Attempt (requests s), Wait baseDelay, Attempt (requests s + 1),
                              Wait (2 * baseDelay), Attempt (requests s + 2)]
     \<and> error s' = ''Failed to get a valid response from LLM after 3 attempts. Please check your prompt or ensure your API key is correct and try again later.'')"
    using parseLoop_all_fail [OF assms(1) fuel, of e baseDelay s]
    by (auto simp: delays_of_three failureTrace_three exhausted_three)
  show "(\<exists>s'. optimizeLoop fuel fetch' 3 baseDelay 0 s = Some s'
     \<and> requests s' = requests s + 3
     \<and> sleeps s' = sleeps s @ [baseDelay, 2 * baseDelay]
     \<and> trace s' = trace s @ [Attempt (requests s), Wait baseDelay, Attempt (requests s + 1),
                              Wait (2 * baseDelay), Attempt (requests s + 2)]
     \<and> error s' = ''Failed to get a valid response from LLM for optimization after 3 attempts.'')"
    using optimizeLoop_all_fail [OF assms(2) fuel, of baseDelay s]
    by (auto simp: delays_of_three failureTrace_three exhausted_three)
next
  assume a: "\<not> isBlank (eventInput s) \<and> geminiApiKey e"
  have fuel: "3 - 0 \<le> fuel" using assms(3) by simp
  let ?s1 = "s\<lparr>isLoading := True, error := [], parsedEvent := None\<rparr>"
  have "handleParseEvent fuel e fetch s = parseLoop fuel e fetch 3 1000 0 ?s1"
    using a by (simp add: handleParseEvent_def Let_def)
  then show "(\<exists>s'. handleParseEvent fuel e fetch s = Some s'
         \<and> requests s' = requests s + 3
         \<and> sleeps s' = sleeps s @ [1000, 2000]
         \<and> trace s' = trace s @ [Attempt (requests s), Wait 1000, Attempt (requests s + 1),
                                  Wait 2000, Attempt (requests s + 2)]
         \<and> error s' = ''Failed to get a valid response from LLM after 3 attempts. Please check your prompt or ensure your API key is correct and try again later.'')"
    using parseLoop_all_fail [OF assms(1) fuel, of e 1000 ?s1]
    by (auto simp: delays_of_three failureTrace_three exhausted_three)
next
  assume a: "\<not> isBlank (optimizationInput s) \<and> geminiApiKey e"
  have fuel: "3 - 0 \<le> fuel" using assms(3) by simp
  let ?s1 = "s\<lparr>isOptimizing := True, error := [], optimizedSuggestions := None\<rparr>"
  have "handleOptimizeSchedule fuel e fetch' s = optimizeLoop fuel fetch' 3 1000 0 ?s1"
    using a by (simp add: handleOptimizeSchedule_def Let_def)
  then show "(\<exists>s'. handleOptimizeSchedule fuel e fetch' s = Some s'
         \<and> requests s' = requests s + 3
         \<and> sleeps s' = sleeps s @ [1000, 2000]
         \<and> trace s' = trace s @ [Attempt (requests s), Wait 1000, Attempt (requests s + 1),
                                  Wait 2000, Attempt (requests s + 2)]
         \<and> error s' = ''Failed to get a valid response from LLM for optimization after 3 attempts.'')"
    using optimizeLoop_all_fail [OF assms(2) fuel, of 1000 ?s1]
    by (auto simp: delays_of_three failureTrace_three exhausted_three)
qed

theorem retry_exhaustion_witness:
  "(\<forall>k::nat. (FetchRejects :: eventData response) = FetchRejects \<or> (FetchRejects :: eventData response) = NotOk)
   \<and> (3::nat) \<le> 3
   \<and> \<not> isBlank (eventInput (initialApp\<lparr>eventInput := ''lunch''\<rparr>))
   \<and> geminiApiKey (quietEnv 0 0)
   \<and> (\<exists>s'. handleParseEvent 3 (quietEnv 0 0) (\<lambda>k. FetchRejects)
              (initialApp\<lparr>eventInput := ''lunch''\<rparr>) = Some s'
          \<and> requests s' = 3 \<and> sleeps s' = [1000, 2000]
          \<and> trace s' = [Attempt 0, Wait 1000, Attempt 1, Wait 2000, Attempt 2]
          \<and> error s' = ''Failed to get a valid response from LLM after 3 attempts. Please check your prompt or ensure your API key is correct and try again later.'')
   \<and> (\<exists>s'. optimizeLoop 3 (\<lambda>k. NotOk) 3 250 0 initialApp = Some s'
          \<and> requests s' = 3 \<and> sleeps s' = [250, 500]
          \<and> trace s' = [Attempt 0, Wait 250, Attempt 1, Wait 500, Attempt 2]
          \<and> error s' = ''Failed to get a valid response from LLM for optimization after 3 attempts.'')"
proof -
  have f: "\<forall>k::nat. (\<lambda>k. FetchRejects :: eventData response) k = FetchRejects
              \<or> (\<lambda>k. FetchRejects :: eventData response) k = NotOk"
    by simp
  have f': "\<forall>k::nat. (\<lambda>k. NotOk :: suggestion list option response) k = FetchRejects
              \<or> (\<lambda>k. NotOk :: suggestion list option response) k = NotOk"
    by simp
  have fuel: "(3::nat) \<le> 3" by simp
  have a: "\<not> isBlank (eventInput (initialApp\<lparr>eventInput := ''lunch''\<rparr>)) \<and> geminiApiKey (quietEnv 0 0)"
    by (simp add: isBlank_def quietEnv_def)
  note r = retry_exhaustion [OF f f' fuel, of "quietEnv 0 0" _ "initialApp\<lparr>eventInput := ''lunch''\<rparr>"]
  from r [of 1000] a have p: "\<exists>s'. handleParseEvent 3 (quietEnv 0 0) (\<lambda>k. FetchRejects)
              (initialApp\<lparr>eventInput := ''lunch''\<rparr>) = Some s'
          \<and> requests s' = 3 \<and> sleeps s' = [1000, 2000]
          \<and> trace s' = [Attempt 0, Wait 1000, Attempt 1, Wait 2000, Attempt 2]
          \<and> error s' = ''Failed to get a valid response from LLM after 3 attempts. Please check your prompt or ensure your API key is correct and try again later.''"
    by (simp add: initialApp_def numeral_2_eq_2)
  from retry_exhaustion [OF f f' fuel, of "quietEnv 0 0" 250 initialApp]
  have q: "\<exists>s'. optimizeLoop 3 (\<lambda>k. NotOk) 3 250 0 initialApp = Some s'
          \<and> requests s' = 3 \<and> sleeps s' = [250, 500]
          \<and> trace s' = [Attempt 0, Wait 250, Attempt 1, Wait 500, Attempt 2]
          \<and> error s' = ''Failed to get a valid response from LLM for optimization after 3 attempts.''"
    by (simp add: initialApp_def numeral_2_eq_2)
  from a p q show ?thesis by simp
qed

text \<open>
  Claim C2 fails on the code. A response with a successful status and a malformed body sets
  the error message and falls through to the next turn of the \<open>while\<close> loop with
  \<open>retries\<close> unchanged: the request is sent again at once. While every response is
  malformed the loop never ends, whatever the fuel, in \<open>handleParseEvent\<close> and in
  \<open>handleOptimizeSchedule\<close>; and after four malformed responses and a good one
  \<open>handleParseEvent\<close> has sent five requests, more than \<open>maxRetries = 3\<close>, without any
  wait between them.
\<close>

theorem shape_errors_are_retried:
  "handleParseEvent fuel (quietEnv 0 0) (\<lambda>k. Ok (Candidate (ParsedValue emptyObject)))
       (initialApp\<lparr>eventInput := ''lunch''\<rparr>) = None
   \<and> handleParseEvent fuel (quietEnv 0 0) (\<lambda>k. Ok (Candidate ParseThrows))
       (initialApp\<lparr>eventInput := ''lunch''\<rparr>) = None
   \<and> handleOptimizeSchedule fuel (quietEnv 0 0) (\<lambda>k. Ok (Candidate ParseThrows))
       (initialApp\<lparr>optimizationInput := ''lunch''\<rparr>) = None
   \<and> (\<exists>s'. handleParseEvent 5 (quietEnv 0 0)
          (\<lambda>k. if k < 4 then Ok (Candidate ParseThrows) else Ok (Candidate (ParsedValue lunch)))
          (initialApp\<lparr>eventInput := ''lunch''\<rparr>) = Some s'
        \<and> requests s' = 5 \<and> sleeps s' = [] \<and> length (events s') = 1)"
proof (intro conjI)
  have blank: "\<not> isBlank ''lunch''" by (simp add: isBlank_def)
  show "handleParseEvent fuel (quietEnv 0 0) (\<lambda>k. Ok (Candidate (ParsedValue emptyObject)))
       (initialApp\<lparr>eventInput := ''lunch''\<rparr>) = None"
    using blank
    by (simp add: handleParseEvent_def Let_def quietEnv_def parseLoop_shape_errors_diverge
          emptyObject_def truthy_def)
  show "handleParseEvent fuel (quietEnv 0 0) (\<lambda>k. Ok (Candidate ParseThrows))
       (initialApp\<lparr>eventInput := ''lunch''\<rparr>) = None"
    using blank
    by (simp add: handleParseEvent_def Let_def quietEnv_def parseLoop_shape_errors_diverge)
  show "handleOptimizeSchedule fuel (quietEnv 0 0) (\<lambda>k. Ok (Candidate ParseThrows))
       (initialApp\<lparr>optimizationInput := ''lunch''\<rparr>) = None"
    using blank
    by (simp add: handleOptimizeSchedule_def Let_def quietEnv_def
          optimizeLoop_shape_errors_diverge)
  have five: "(5::nat) = Suc (Suc (Suc (Suc (Suc 0))))" by simp
  show "\<exists>s'. handleParseEvent 5 (quietEnv 0 0)
          (\<lambda>k. if k < 4 then Ok (Candidate ParseThrows) else Ok (Candidate (ParsedValue lunch)))
          (initialApp\<lparr>eventInput := ''lunch''\<rparr>) = Some s'
        \<and> requests s' = 5 \<and> sleeps s' = [] \<and> length (events s') = 1"
    unfolding five
    by (simp add: handleParseEvent_def isBlank_def quietEnv_def initialApp_def
          parseLoop.simps Let_def saveParsedEvent_def lunch_def truthy_def matchesMD_def
          matchesYMD_def orEmpty_def)
qed


section \<open>The suggestion applier\<close>

lemma firestore_writes:
  "firestore e c s = Inr s' \<Longrightarrow> writes s' = writes s @ [c]"
  "firestore e c s = Inl (msg, s') \<Longrightarrow> writes s' = writes s @ [c] \<and> store s' = store s"
  by (auto simp: firestore_def Let_def split: option.splits call.splits if_splits)

lemma applyChange_callOf:
  "applyChange e change s =
     (case callOf e (length (writes s)) change of
        Some c \<Rightarrow> firestore e c s
      | None \<Rightarrow> Inr (s\<lparr>warnings := warnings s @ [UnknownChange change]\<rparr>))"
  by (simp add: applyChange_def callOf_def Let_def split: option.splits)

lemma incompleteChange_callOf:
  "incompleteChange change \<longleftrightarrow> callOf e k change = None"
  by (auto simp: incompleteChange_def callOf_def split: option.splits)

lemma applyChanges_append:
  "applyChanges e (xs @ ys) s =
     (case applyChanges e xs s of Inl x \<Rightarrow> Inl x | Inr s' \<Rightarrow> applyChanges e ys s')"
  by (induction xs arbitrary: s) (auto split: sum.splits)

lemma callsOf_append:
  "callsOf e k (xs @ ys) = callsOf e k xs @ callsOf e (k + length (callsOf e k xs)) ys"
  by (induction xs arbitrary: k) (auto split: option.splits)

lemma applyChanges_writes:
  "applyChanges e cs s = Inr s' \<Longrightarrow> writes s' = writes s @ callsOf e (length (writes s)) cs"
proof (induction cs arbitrary: s)
  case Nil
  then show ?case by simp
next
  case (Cons c cs)
  show ?case
  proof (cases "callOf e (length (writes s)) c")
    case None
    with Cons.prems have "applyChanges e cs (s\<lparr>warnings := warnings s @ [UnknownChange c]\<rparr>) = Inr s'"
      by (simp add: applyChange_callOf)
    from Cons.IH [OF this] None show ?thesis by simp
  next
    case (Some k)
    with Cons.prems obtain s1 where s1: "firestore e k s = Inr s1" "applyChanges e cs s1 = Inr s'"
      by (auto simp: applyChange_callOf split: sum.splits)
    from firestore_writes(1) [OF s1(1)] Cons.IH [OF s1(2)] Some show ?thesis by simp
  qed
qed

text \<open>
  Claim C6. An \<open>add\<close> without \<open>eventDetails\<close>, a \<open>move\<close> without \<open>eventId\<close> or
  \<open>newTime\<close>, a \<open>delete\<close> without \<open>eventId\<close> and an operation of any other type is
  skipped: the only effect is the logged warning, no Firestore call is issued for it, and
  the loop goes on with the operations after it, wherever in the list the operation stands.
\<close>

theorem skipped_operations:
  assumes "incompleteChange change"
  shows "applyChange e change s = Inr (s\<lparr>warnings := warnings s @ [UnknownChange change]\<rparr>)
       \<and> applyChanges e (change # rest) s =
           applyChanges e rest (s\<lparr>warnings := warnings s @ [UnknownChange change]\<rparr>)
       \<and> (\<forall>s1. applyChanges e before s = Inr s1 \<longrightarrow>
             applyChanges e (before @ change # rest) s =
               applyChanges e rest (s1\<lparr>warnings := warnings s1 @ [UnknownChange change]\<rparr>))
       \<and> callsOf e k (before @ change # rest) = callsOf e k (before @ rest)"
proof -
  have none: "callOf e k change = None" for k
    using assms by (simp add: incompleteChange_callOf [of change e k])
  have one: "applyChange e change s = Inr (s\<lparr>warnings := warnings s @ [UnknownChange change]\<rparr>)" for s
    by (simp add: applyChange_callOf none)
  have "callsOf e k (before @ change # rest) = callsOf e k (before @ rest)"
    by (simp add: callsOf_append none)
  with one show ?thesis by (simp add: applyChanges_append)
qed

text \<open>
  Claim C1, as amended. The operations are applied one after the other in list order. When
  the Firestore call of one operation fails, the loop ends there: the calls issued are those
  of the operations before it, in order, and the failed one; no later operation is
  attempted; the collection is as the operations before the failure left it (no rollback);
  and \<open>handleAcceptSuggestion\<close> reports the error.
\<close>

theorem applier_stops_at_failure:
  assumes "applyChanges e before s = Inr s1"
      and "applyChange e change s1 = Inl (msg, s2)"
  shows "applyChanges e (before @ change # rest) s = Inl (msg, s2)
       \<and> writes s1 = writes s @ callsOf e (length (writes s)) before
       \<and> (\<exists>c. callOf e (length (writes s1)) change = Some c \<and> writes s2 = writes s1 @ [c])
       \<and> store s2 = store s1
       \<and> (dbReady s0 \<and> s = s0\<lparr>isLoading := True, error := []\<rparr> \<longrightarrow>
            handleAcceptSuggestion e (before @ change # rest) s0 =
              s2\<lparr>error := ''Failed to apply optimization: '' @ msg, isLoading := False\<rparr>)"
proof -
  have all: "applyChanges e (before @ change # rest) s = Inl (msg, s2)"
    using assms by (simp add: applyChanges_append)
  have w: "writes s1 = writes s @ callsOf e (length (writes s)) before"
    using assms(1) by (rule applyChanges_writes)
  from assms(2) obtain c where c: "callOf e (length (writes s1)) change = Some c"
      "firestore e c s1 = Inl (msg, s2)"
    by (auto simp: applyChange_callOf split: option.splits)
  from firestore_writes(2) [OF c(2)] c(1)
  have f: "\<exists>c. callOf e (length (writes s1)) change = Some c \<and> writes s2 = writes s1 @ [c]"
    "store s2 = store s1"
    by auto
  have h: "handleAcceptSuggestion e (before @ change # rest) s0 =
              s2\<lparr>error := ''Failed to apply optimization: '' @ msg, isLoading := False\<rparr>"
    if "dbReady s0 \<and> s = s0\<lparr>isLoading := True, error := []\<rparr>"
    using that all by (simp add: handleAcceptSuggestion_def)
  from all w f h show ?thesis by blast
qed

text \<open>
  Claim C8. A \<open>move\<close> that carries an \<open>eventId\<close> and a \<open>newTime\<close> issues the one call
  \<open>updateDoc(id, {time: newTime})\<close>. When it succeeds, the targeted event has the new
  time and its title, date, description and location type are unchanged, as is every other
  event; when it fails, the collection is unchanged.
\<close>

theorem move_changes_time_only:
  assumes "type change = Some ''move''" and "eventId change = Some i" and "i \<noteq> []"
      and "newTime change = Some t" and "t \<noteq> []"
  shows "case applyChange e change s of
           Inr s' \<Rightarrow>
             writes s' = writes s @ [UpdateDoc i [(''time'', Some t)]]
             \<and> (\<exists>d. store s i = Some d \<and> store s' i = Some (d\<lparr>time := Some t\<rparr>))
             \<and> (\<forall>d d'. store s i = Some d \<and> store s' i = Some d' \<longrightarrow>
                  time d' = Some t \<and> title d' = title d \<and> date d' = date d
                  \<and> description d' = description d \<and> locationType d' = locationType d)
             \<and> (\<forall>j. j \<noteq> i \<longrightarrow> store s' j = store s j)
         | Inl (msg, s') \<Rightarrow>
             writes s' = writes s @ [UpdateDoc i [(''time'', Some t)]] \<and> store s' = store s"
  using assms
  by (auto simp: applyChange_def firestore_def Let_def truthy_def orEmpty_def setField_def
        split: option.splits sum.splits)

text \<open>
  Claim C1 as stated fails: when the \<open>delete\<close> of event a is rejected, the \<open>move\<close> of
  event b is not attempted. The only call issued is the \<open>deleteDoc\<close>, event b keeps its
  time 10:00, and the error is reported.
\<close>

theorem applier_continues_counterexample:
  "writes (handleAcceptSuggestion (rejectNth 0) [deleteOp ''a'', moveOp ''b'' ''11:00''] twoEvents)
     = [DeleteDoc ''a'']
   \<and> store (handleAcceptSuggestion (rejectNth 0) [deleteOp ''a'', moveOp ''b'' ''11:00''] twoEvents) ''b''
     = Some (sampleDoc ''2025-08-04'' ''10:00'')
   \<and> error (handleAcceptSuggestion (rejectNth 0) [deleteOp ''a'', moveOp ''b'' ''11:00''] twoEvents)
     = ''Failed to apply optimization: unavailable''"
  by (simp add: handleAcceptSuggestion_def applyChange_def firestore_def rejectNth_def
        quietEnv_def twoEvents_def initialApp_def deleteOp_def moveOp_def truthy_def orEmpty_def
        Let_def)

theorem applier_stops_at_failure_witness:
  "applyChanges (rejectNth 1) [moveOp ''b'' ''11:00''] (twoEvents\<lparr>isLoading := True, error := []\<rparr>)
     = Inr (twoEvents\<lparr>isLoading := True, error := [],
              writes := [UpdateDoc ''b'' [(''time'', Some ''11:00'')]],
              store := (store twoEvents)(''b'' \<mapsto> sampleDoc ''2025-08-04'' ''11:00'')\<rparr>)
   \<and> applyChange (rejectNth 1) (deleteOp ''a'')
        (twoEvents\<lparr>isLoading := True, error := [],
              writes := [UpdateDoc ''b'' [(''time'', Some ''11:00'')]],
              store := (store twoEvents)(''b'' \<mapsto> sampleDoc ''2025-08-04'' ''11:00'')\<rparr>)
     = Inl (''unavailable'', twoEvents\<lparr>isLoading := True, error := [],
              writes := [UpdateDoc ''b'' [(''time'', Some ''11:00'')], DeleteDoc ''a''],
              store := (store twoEvents)(''b'' \<mapsto> sampleDoc ''2025-08-04'' ''11:00'')\<rparr>)
   \<and> dbReady twoEvents
   \<and> store (handleAcceptSuggestion (rejectNth 1)
        ([moveOp ''b'' ''11:00''] @ deleteOp ''a'' # [moveOp ''a'' ''12:00'']) twoEvents) ''b''
       = Some (sampleDoc ''2025-08-04'' ''11:00'')
   \<and> writes (handleAcceptSuggestion (rejectNth 1)
        ([moveOp ''b'' ''11:00''] @ deleteOp ''a'' # [moveOp ''a'' ''12:00'']) twoEvents)
       = [UpdateDoc ''b'' [(''time'', Some ''11:00'')], DeleteDoc ''a'']"
proof -
  let ?s = "twoEvents\<lparr>isLoading := True, error := []\<rparr>"
  let ?s1 = "twoEvents\<lparr>isLoading := True, error := [],
              writes := [UpdateDoc ''b'' [(''time'', Some ''11:00'')]],
              store := (store twoEvents)(''b'' \<mapsto> sampleDoc ''2025-08-04'' ''11:00'')\<rparr>"
  let ?s2 = "twoEvents\<lparr>isLoading := True, error := [],
              writes := [UpdateDoc ''b'' [(''time'', Some ''11:00'')], DeleteDoc ''a''],
              store := (store twoEvents)(''b'' \<mapsto> sampleDoc ''2025-08-04'' ''11:00'')\<rparr>"
  have a: "applyChanges (rejectNth 1) [moveOp ''b'' ''11:00''] ?s = Inr ?s1"
    by (simp add: applyChange_def firestore_def rejectNth_def quietEnv_def twoEvents_def
          initialApp_def moveOp_def truthy_def orEmpty_def Let_def setField_def sampleDoc_def)
  have b: "applyChange (rejectNth 1) (deleteOp ''a'') ?s1 = Inl (''unavailable'', ?s2)"
    by (simp add: applyChange_def firestore_def rejectNth_def quietEnv_def twoEvents_def
          initialApp_def deleteOp_def truthy_def orEmpty_def Let_def)
  have c: "dbReady twoEvents" by (simp add: twoEvents_def)
  from applier_stops_at_failure [OF a b, of "[moveOp ''a'' ''12:00'']" twoEvents] c
  have "handleAcceptSuggestion (rejectNth 1)
        ([moveOp ''b'' ''11:00''] @ deleteOp ''a'' # [moveOp ''a'' ''12:00'']) twoEvents
      = ?s2\<lparr>error := ''Failed to apply optimization: '' @ ''unavailable'', isLoading := False\<rparr>"
    by blast
  with a b c show ?thesis by simp
qed

theorem skipped_operations_witness:
  "incompleteChange (moveOp [] ''11:00'')
   \<and> applyChanges (quietEnv 0 0) [deleteOp ''a''] twoEvents
        = Inr (twoEvents\<lparr>writes := [DeleteDoc ''a''],
                 store := (store twoEvents)(''a'' := None)\<rparr>)
   \<and> applyChanges (quietEnv 0 0) ([deleteOp ''a''] @ moveOp [] ''11:00'' # [moveOp ''b'' ''11:00''])
        twoEvents
      = applyChanges (quietEnv 0 0) [moveOp ''b'' ''11:00'']
          (twoEvents\<lparr>writes := [DeleteDoc ''a''],
                 store := (store twoEvents)(''a'' := None),
                 warnings := [UnknownChange (moveOp [] ''11:00'')]\<rparr>)"
proof -
  have i: "incompleteChange (moveOp [] ''11:00'')"
    by (simp add: incompleteChange_def moveOp_def truthy_def)
  have a: "applyChanges (quietEnv 0 0) [deleteOp ''a''] twoEvents
        = Inr (twoEvents\<lparr>writes := [DeleteDoc ''a''],
                 store := (store twoEvents)(''a'' := None)\<rparr>)"
    by (simp add: applyChange_def firestore_def quietEnv_def twoEvents_def
          initialApp_def deleteOp_def truthy_def orEmpty_def Let_def)
  from skipped_operations [OF i, where e = "quietEnv 0 0" and s = twoEvents
      and rest = "[moveOp ''b'' ''11:00'']" and before = "[deleteOp ''a'']"] a
  have "applyChanges (quietEnv 0 0) ([deleteOp ''a''] @ moveOp [] ''11:00'' # [moveOp ''b'' ''11:00''])
        twoEvents
      = applyChanges (quietEnv 0 0) [moveOp ''b'' ''11:00'']
          ((twoEvents\<lparr>writes := [DeleteDoc ''a''],
                 store := (store twoEvents)(''a'' := None)\<rparr>)
             \<lparr>warnings := warnings (twoEvents\<lparr>writes := [DeleteDoc ''a''],
                 store := (store twoEvents)(''a'' := None)\<rparr>) @ [UnknownChange (moveOp [] ''11:00'')]\<rparr>)"
    by blast
  with i a show ?thesis by (simp add: twoEvents_def initialApp_def)
qed

theorem move_changes_time_only_witness:
  "type (moveOp ''b'' ''11:00'') = Some ''move'' \<and> eventId (moveOp ''b'' ''11:00'') = Some ''b''
   \<and> ''b'' \<noteq> [] \<and> newTime (moveOp ''b'' ''11:00'') = Some ''11:00'' \<and> ''11:00'' \<noteq> []
   \<and> applyChange (quietEnv 0 0) (moveOp ''b'' ''11:00'') twoEvents
       = Inr (twoEvents\<lparr>writes := [UpdateDoc ''b'' [(''time'', Some ''11:00'')]],
                store := (store twoEvents)(''b'' \<mapsto> sampleDoc ''2025-08-04'' ''11:00'')\<rparr>)
   \<and> ((store twoEvents)(''b'' \<mapsto> sampleDoc ''2025-08-04'' ''11:00'')) ''a''
       = store twoEvents ''a''"
proof -
  have h: "type (moveOp ''b'' ''11:00'') = Some ''move''" "eventId (moveOp ''b'' ''11:00'') = Some ''b''"
    "''b'' \<noteq> []" "newTime (moveOp ''b'' ''11:00'') = Some ''11:00''" "''11:00'' \<noteq> []"
    by (simp_all add: moveOp_def)
  have r: "applyChange (quietEnv 0 0) (moveOp ''b'' ''11:00'') twoEvents
       = Inr (twoEvents\<lparr>writes := [UpdateDoc ''b'' [(''time'', Some ''11:00'')]],
                store := (store twoEvents)(''b'' \<mapsto> sampleDoc ''2025-08-04'' ''11:00'')\<rparr>)"
    by (simp add: applyChange_def firestore_def quietEnv_def twoEvents_def
          initialApp_def moveOp_def truthy_def orEmpty_def Let_def setField_def sampleDoc_def)
  from move_changes_time_only [OF h, where e = "quietEnv 0 0" and s = twoEvents] r
  have "\<forall>j. j \<noteq> ''b'' \<longrightarrow>
         ((store twoEvents)(''b'' \<mapsto> sampleDoc ''2025-08-04'' ''11:00'')) j = store twoEvents j"
    by simp
  then have "((store twoEvents)(''b'' \<mapsto> sampleDoc ''2025-08-04'' ''11:00'')) ''a''
       = store twoEvents ''a''"
    by simp
  with h r show ?thesis by simp
qed

text \<open>
  Claim C9 fails on the code for an applied \<open>add\<close> suggestion. Unlike the parse-and-save
  flow and the edit form, which test \<open>title\<close>, \<open>date\<close> and \<open>time\<close> before they write
  (lemmas \<open>handleParseEvent_allValid\<close> and \<open>handleUpdateEvent_allValid\<close> below),
  \<open>handleAcceptSuggestion\<close> writes the event details it is given: an \<open>add\<close> whose title
  is the empty string is stored as it is, with no error.
\<close>

theorem add_writes_untitled_event:
  "store (handleAcceptSuggestion (quietEnv 0 0) [addOp untitled] (initialApp\<lparr>dbReady := True\<rparr>))
      ''doc0''
     = Some \<lparr>title = Some [], date = Some ''2025-08-04'', time = Some ''09:00'',
             description = Some [], locationType = Some []\<rparr>
   \<and> writes (handleAcceptSuggestion (quietEnv 0 0) [addOp untitled] (initialApp\<lparr>dbReady := True\<rparr>))
     = [SetDoc ''doc0'' \<lparr>title = Some [], date = Some ''2025-08-04'', time = Some ''09:00'',
             description = Some [], locationType = Some []\<rparr>]
   \<and> error (handleAcceptSuggestion (quietEnv 0 0) [addOp untitled] (initialApp\<lparr>dbReady := True\<rparr>))
     = []
   \<and> \<not> validEvent \<lparr>title = Some [], date = Some ''2025-08-04'', time = Some ''09:00'',
             description = Some [], locationType = Some []\<rparr>"
  by (simp add: handleAcceptSuggestion_def applyChange_def firestore_def quietEnv_def
        initialApp_def addOp_def untitled_def truthy_def orEmpty_def Let_def hasUndefined_def
        validEvent_def toString_def)

section \<open>The invariant of stored events\<close>

lemma allValid_store: "store s' = store s \<Longrightarrow> allValid s' = allValid s"
  by (simp add: allValid_def)

lemma firestore_failure_store: "firestore e c s = Inl (msg, s') \<Longrightarrow> store s' = store s"
  by (auto simp: firestore_def Let_def split: option.splits call.splits if_splits)

lemma firestore_SetDoc_allValid:
  "validEvent d \<Longrightarrow> allValid s \<Longrightarrow> firestore e (SetDoc i d) s = Inr s' \<Longrightarrow> allValid s'"
  by (auto simp: firestore_def Let_def allValid_def split: option.splits if_splits)

lemma firestore_DeleteDoc_allValid:
  "allValid s \<Longrightarrow> firestore e (DeleteDoc i) s = Inr s' \<Longrightarrow> allValid s'"
  by (auto simp: firestore_def Let_def allValid_def split: option.splits if_splits)

lemma validEvent_set_time:
  "validEvent d \<Longrightarrow> t \<noteq> [] \<Longrightarrow> validEvent (setField ''time'' t d)"
  by (simp add: validEvent_def setField_def truthy_def)

lemma firestore_move_allValid:
  "allValid s \<Longrightarrow> truthy t \<Longrightarrow> firestore e (UpdateDoc i [(''time'', t)]) s = Inr s' \<Longrightarrow> allValid s'"
  by (auto simp: firestore_def Let_def allValid_def truthy_def orEmpty_def validEvent_set_time
      split: option.splits if_splits)

text \<open>Only an \<open>add\<close> operation can break the invariant.\<close>

lemma applyChange_allValid:
  assumes "allValid s" and "type change \<noteq> Some ''add''" and "applyChange e change s = Inr s'"
  shows "allValid s'"
proof (cases "type change = Some ''move'' \<and> truthy (eventId change) \<and> truthy (newTime change)")
  case True
  with assms(2,3) have "firestore e (UpdateDoc (orEmpty (eventId change))
      [(''time'', newTime change)]) s = Inr s'"
    by (simp add: applyChange_def)
  with assms(1) True show ?thesis by (auto intro: firestore_move_allValid)
next
  case notMove: False
  show ?thesis
  proof (cases "type change = Some ''delete'' \<and> truthy (eventId change)")
    case True
    with notMove assms(2,3) have "firestore e (DeleteDoc (orEmpty (eventId change))) s = Inr s'"
      by (auto simp: applyChange_def)
    with assms(1) show ?thesis by (auto intro: firestore_DeleteDoc_allValid)
  next
    case False
    with notMove assms(2,3) have "s' = s\<lparr>warnings := warnings s @ [UnknownChange change]\<rparr>"
      by (auto simp: applyChange_def)
    with assms(1) show ?thesis by (simp add: allValid_def)
  qed
qed

text \<open>The parse-and-save flow writes valid events only.\<close>

lemma saveParsedEvent_allValid:
  assumes "truthy (title parsed)" "truthy (date parsed)" "truthy (time parsed)" "allValid s"
  shows "saveParsedEvent e parsed s = Inr s' \<Longrightarrow> allValid s'"
    and "saveParsedEvent e parsed s = Inl (msg, s') \<Longrightarrow> allValid s'"
proof -
  let ?d = "orEmpty (date parsed)"
  let ?finalDate = "if matchesMD ?d then toString (getFullYear (localTZA e) (clock e)) @ ''-'' @ ?d
                       else if matchesYMD ?d then ''20'' @ ?d else ?d"
  let ?ev = "\<lparr>title = title parsed, date = Some ?finalDate, time = time parsed,
             description = Some (orEmpty (description parsed)),
             locationType = Some (orEmpty (locationType parsed))\<rparr>"
  have "?d \<noteq> []" using assms(2) by (auto simp: truthy_def orEmpty_def split: option.splits)
  then have "?finalDate \<noteq> []" by simp
  then have v: "validEvent ?ev"
    using assms(1,3) by (simp add: validEvent_def truthy_def)
  let ?s1 = "s\<lparr>parsedEvent := Some ?ev\<rparr>"
  have s1: "allValid ?s1" using assms(4) by (simp add: allValid_def)
  show "allValid s'" if "saveParsedEvent e parsed s = Inr s'"
  proof (cases "dbReady s")
    case True
    with that obtain s2 where "firestore e (SetDoc (autoId e (length (writes ?s1))) ?ev) ?s1 = Inr s2"
      "s' = s2\<lparr>eventInput := []\<rparr>"
      by (auto simp: saveParsedEvent_def Let_def split: sum.splits)
    with firestore_SetDoc_allValid [OF v s1] show ?thesis by (auto simp: allValid_def)
  next
    case False
    with that s1 show ?thesis by (auto simp: saveParsedEvent_def Let_def allValid_def)
  qed
  show "allValid s'" if "saveParsedEvent e parsed s = Inl (msg, s')"
  proof -
    from that have "firestore e (SetDoc (autoId e (length (writes ?s1))) ?ev) ?s1 = Inl (msg, s')"
      by (auto simp: saveParsedEvent_def Let_def split: sum.splits if_splits)
    from firestore_failure_store [OF this] s1 show ?thesis by (simp add: allValid_def)
  qed
qed

lemma catchFetchError_store:
  "store (snd (catchFetchError maxRetries baseDelay msg retries s)) = store s"
  by (simp add: catchFetchError_def Let_def)

lemma parseLoop_allValid:
  "allValid s \<Longrightarrow> parseLoop fuel e fetch maxRetries baseDelay retries s = Some s' \<Longrightarrow> allValid s'"
proof (induction fuel arbitrary: retries s)
  case 0
  then show ?case by (auto simp: parseLoop.simps split: if_splits)
next
  case (Suc fuel)
  show ?case
  proof (cases "retries < maxRetries")
    case False
    with Suc.prems show ?thesis by (simp add: parseLoop_done)
  next
    case True
    let ?s1 = "s\<lparr>requests := requests s + 1, trace := trace s @ [Attempt (requests s)]\<rparr>"
    have s1: "allValid ?s1" using Suc.prems(1) by (simp add: allValid_def)
    have again: "allValid s'"
      if "parseLoop fuel e fetch maxRetries baseDelay retries (s2\<lparr>error := msg, isLoading := False\<rparr>) = Some s'"
        and "allValid s2" for msg s2
      using Suc.IH [OF _ that(1)] that(2) by (simp add: allValid_def)
    have caught: "allValid s'"
      if "(let (retries', s2) = catchFetchError maxRetries baseDelay (parseExhausted maxRetries) retries ?s1
                in parseLoop fuel e fetch maxRetries baseDelay retries' (s2\<lparr>isLoading := False\<rparr>)) = Some s'"
    proof -
      obtain r' s2 where c: "catchFetchError maxRetries baseDelay (parseExhausted maxRetries) retries ?s1 = (r', s2)"
        by (cases "catchFetchError maxRetries baseDelay (parseExhausted maxRetries) retries ?s1")
      then have "store s2 = store s"
        using catchFetchError_store [of maxRetries baseDelay "parseExhausted maxRetries" retries ?s1]
        by simp
      then have "allValid (s2\<lparr>isLoading := False\<rparr>)" using Suc.prems(1) by (simp add: allValid_def)
      from Suc.IH [OF this] that c show ?thesis by simp
    qed
    show ?thesis
    proof (cases "fetch (requests s)")
      case FetchRejects
      with True Suc.prems(2) caught show ?thesis
        by (simp add: parseLoop.simps [of "Suc fuel"] Let_def)
    next
      case NotOk
      with True Suc.prems(2) caught show ?thesis
        by (simp add: parseLoop.simps [of "Suc fuel"] Let_def)
    next
      case (Ok body)
      show ?thesis
      proof (cases body)
        case BodyThrows
        with Ok True Suc.prems(2) caught show ?thesis
          by (simp add: parseLoop.simps [of "Suc fuel"] Let_def)
      next
        case NoCandidates
        with Ok True Suc.prems(2) again [OF _ s1] show ?thesis
          by (simp add: parseLoop.simps [of "Suc fuel"] Let_def)
      next
        case (Candidate cand)
        show ?thesis
        proof (cases cand)
          case ParseThrows
          with Candidate Ok True Suc.prems(2) again [OF _ s1] show ?thesis
            by (simp add: parseLoop.simps [of "Suc fuel"] Let_def)
        next
          case (ParsedValue parsed)
          show ?thesis
          proof (cases "truthy (title parsed) \<and> truthy (date parsed) \<and> truthy (time parsed)")
            case False
            with ParsedValue Candidate Ok True Suc.prems(2) again [OF _ s1] show ?thesis
              by (auto simp: parseLoop.simps [of "Suc fuel"] Let_def)
          next
            case t: True
            show ?thesis
            proof (cases "saveParsedEvent e parsed ?s1")
              case (Inr s2)
              with saveParsedEvent_allValid(1) [OF _ _ _ s1 Inr] t
              have "allValid s2" by simp
              with Inr t ParsedValue Candidate Ok True Suc.prems(2) show ?thesis
                by (auto simp: parseLoop.simps [of "Suc fuel"] Let_def allValid_def)
            next
              case (Inl x)
              obtain msg s2 where x: "x = (msg, s2)" by (cases x)
              with saveParsedEvent_allValid(2) [OF _ _ _ s1, of parsed e msg s2] t Inl
              have "allValid s2" by simp
              with Inl x t ParsedValue Candidate Ok True Suc.prems(2) again [OF _ this] show ?thesis
                by (auto simp: parseLoop.simps [of "Suc fuel"] Let_def)
            qed
          qed
        qed
      qed
    qed
  qed
qed

lemma handleParseEvent_allValid:
  "allValid s \<Longrightarrow> handleParseEvent fuel e fetch s = Some s' \<Longrightarrow> allValid s'"
proof -
  assume a: "allValid s" and h: "handleParseEvent fuel e fetch s = Some s'"
  have 1: "allValid (s\<lparr>isLoading := True, error := [], parsedEvent := None\<rparr>)"
    using a by (simp add: allValid_def)
  from h show ?thesis
    using a 1 parseLoop_allValid [OF 1]
    by (auto simp: handleParseEvent_def Let_def allValid_def split: if_splits)
qed

text \<open>The edit form writes valid events only.\<close>

lemma handleUpdateEvent_allValid:
  "allValid s \<Longrightarrow> allValid (handleUpdateEvent e s)"
  by (auto simp: handleUpdateEvent_def handleCloseEditModal_def firestore_def Let_def allValid_def
        validEvent_def setField_def truthy_def orEmpty_def
      split: bool.splits option.splits sum.splits if_splits)

section \<open>Well-formed date and time fields\<close>

lemma digitVal_range: "isDigit c \<Longrightarrow> 0 \<le> digitVal c \<and> digitVal c \<le> 9"
  by (auto simp: isDigit_def digitVal_def)

lemma foldl_digits_bounds:
  "list_all isDigit s \<Longrightarrow> 0 \<le> a \<Longrightarrow>
     0 \<le> foldl (\<lambda>a c. 10 * a + digitVal c) a s
     \<and> foldl (\<lambda>a c. 10 * a + digitVal c) a s < (a + 1) * 10 ^ length s"
proof (induction s arbitrary: a)
  case Nil
  then show ?case by simp
next
  case (Cons c cs)
  then have c: "0 \<le> digitVal c" "digitVal c \<le> 9" using digitVal_range [of c] by auto
  let ?a = "10 * a + digitVal c"
  have a0: "0 \<le> ?a" using Cons.prems c by simp
  from Cons.IH [OF _ a0] Cons.prems have
    ih: "0 \<le> foldl (\<lambda>a c. 10 * a + digitVal c) ?a cs"
        "foldl (\<lambda>a c. 10 * a + digitVal c) ?a cs < (?a + 1) * 10 ^ length cs"
    by auto
  have "foldl (\<lambda>a c. 10 * a + digitVal c) ?a cs < (?a + 1) * 10 ^ length cs"
    by (rule ih(2))
  also have "\<dots> \<le> (10 * (a + 1)) * 10 ^ length cs"
    using c by (intro mult_right_mono) auto
  also have "\<dots> = (a + 1) * 10 ^ length (c # cs)"
    by simp
  finally show ?case using ih(1) by simp
qed

lemma decimal_bounds: "decimal s = Some v \<Longrightarrow> 0 \<le> v \<and> v < 10 ^ length s"
  using foldl_digits_bounds [of s 0] by (auto simp: decimal_def split: if_splits)

lemma daysBeforeMonth_range:
  assumes "k \<le> 12"
  shows "0 \<le> daysBeforeMonth y k" "daysBeforeMonth y k \<le> 366"
proof -
  define l :: int where "l = (if InLeapYear y then 1 else 0)"
  define table where "table = [0, 31, 59 + l, 90 + l, 120 + l, 151 + l, 181 + l, 212 + l,
      243 + l, 273 + l, 304 + l, 334 + l, 365 + l]"
  have "list_all (\<lambda>x. 0 \<le> x \<and> x \<le> 366) table"
    by (simp add: table_def l_def)
  moreover have "k < length table" using assms by (simp add: table_def)
  ultimately have "0 \<le> table ! k \<and> table ! k \<le> 366"
    by (simp add: list_all_length)
  moreover have "daysBeforeMonth y k = table ! k"
    by (simp add: daysBeforeMonth_def table_def l_def Let_def)
  ultimately show "0 \<le> daysBeforeMonth y k" "daysBeforeMonth y k \<le> 366" by simp_all
qed

lemma DayFromYear_four_digits:
  assumes "0 \<le> y" "y < 10000"
  shows "- 719530 \<le> DayFromYear y" "DayFromYear y \<le> 2932533"
proof -
  have "146097 * (y - 1970) - 506 \<le> 400 * DayFromYear y"
    "400 * DayFromYear y \<le> 146097 * (y - 1970) + 589"
    by (rule DayFromYear_bounds)+
  with assms show "- 719530 \<le> DayFromYear y" "DayFromYear y \<le> 2932533" by simp_all
qed

text \<open>The day number of a well-formed date is far inside the range of Date.\<close>

lemma parseIsoDate_bounds:
  assumes "parseIsoDate s = Some D"
  shows "- 719530 \<le> D" "D \<le> 2932898" "length s = 10"
proof -
  from assms obtain y m d where
    len: "length s = 10"
    and y: "decimal (take 4 s) = Some y"
    and md: "1 \<le> m" "m \<le> 12" "1 \<le> d" "d \<le> daysBeforeMonth y (nat m) - daysBeforeMonth y (nat m - 1)"
    and D: "D = MakeDay y (m - 1) d"
    by (auto simp: parseIsoDate_def split: if_splits option.splits)
  from decimal_bounds [OF y] len have yr: "0 \<le> y" "y < 10000" by simp_all
  have m1: "(m - 1) div 12 = 0" "nat ((m - 1) mod 12) = nat m - 1"
    using md(1,2) by (simp_all add: div_pos_pos_trivial nat_diff_distrib)
  have D': "D = DayFromYear y + daysBeforeMonth y (nat m - 1) + d - 1"
    by (simp add: D MakeDay_def Let_def m1)
  have lo: "0 \<le> daysBeforeMonth y (nat m - 1)"
    using md(2) by (intro daysBeforeMonth_range) simp
  have hi: "daysBeforeMonth y (nat m) \<le> 366"
    using md(2) by (intro daysBeforeMonth_range) simp
  from DayFromYear_four_digits [OF yr] lo hi md(3,4)
  show "- 719530 \<le> D" "D \<le> 2932898" unfolding D' by simp_all
  show "length s = 10" by (rule len)
qed

lemma length5: "length t = 5 \<Longrightarrow> \<exists>a b c d e. t = [a, b, c, d, e]"
  by (auto simp: length_Suc_conv eval_nat_numeral)

lemma digit_not_colon: "isDigit c \<Longrightarrow> c \<noteq> CHR '':''"
  by (auto simp: isDigit_def)

lemma decimal_two: "decimal [a, b] = Some v \<Longrightarrow> isDigit a \<and> isDigit b"
  by (auto simp: decimal_def split: if_splits)

text \<open>For a well-formed time, \<open>split\<close> and \<open>Number\<close> find the hour and the minute that the
  date-time format reads.\<close>

lemma parseIsoTime_parts:
  assumes "parseIsoTime t = Some tm"
  shows "\<exists>h m. map Number (split CHR '':'' t) = [Some h, Some m] \<and> tm = MakeTime h m 0 0"
    and "0 \<le> tm" and "tm \<le> msPerDay" and "length t = 5"
proof -
  from assms have len: "length t = 5" by (auto simp: parseIsoTime_def split: if_splits)
  then obtain a b c d e where t: "t = [a, b, c, d, e]" using length5 by blast
  from assms t obtain h m where
    c: "c = CHR '':''" and h: "decimal [a, b] = Some h" and m: "decimal [d, e] = Some m"
    and r: "(h \<le> 23 \<and> m \<le> 59) \<or> (h = 24 \<and> m = 0)" and tm: "tm = MakeTime h m 0 0"
    by (auto simp: parseIsoTime_def split: if_splits option.splits)
  from decimal_two [OF h] decimal_two [OF m]
  have nc: "a \<noteq> CHR '':''" "b \<noteq> CHR '':''" "d \<noteq> CHR '':''" "e \<noteq> CHR '':''"
    using digit_not_colon by blast+
  have "split CHR '':'' t = [[a, b], [d, e]]"
    using nc by (simp add: t c)
  then have "map Number (split CHR '':'' t) = [Some h, Some m]"
    using h m by (simp add: Number_def)
  then show "\<exists>h m. map Number (split CHR '':'' t) = [Some h, Some m] \<and> tm = MakeTime h m 0 0"
    using tm by auto
  from decimal_bounds [OF h] decimal_bounds [OF m] r
  show "0 \<le> tm" "tm \<le> msPerDay"
    by (auto simp: tm MakeTime_def msPerHour_def msPerMinute_def msPerDay_def msPerSecond_def)
  show "length t = 5" by (rule len)
qed

section \<open>The event matcher and the day filter on well-formed events\<close>

lemma Day_bounds: "msPerDay * Day t \<le> t" "t < msPerDay * Day t + msPerDay"
  unfolding Day_def using div_bounds [of msPerDay t] by (simp_all add: msPerDay_def)

lemma Day_of_date_east:
  "0 \<le> tza \<Longrightarrow> tza < msPerDay \<Longrightarrow> Day (D * msPerDay + tza) = D"
  unfolding Day_def by (rule div_eqI) (simp_all add: msPerDay_def)

lemma Day_of_date_west:
  "- msPerDay \<le> tza \<Longrightarrow> tza < 0 \<Longrightarrow> Day (D * msPerDay + tza) = D - 1"
  unfolding Day_def by (rule div_eqI) (simp_all add: msPerDay_def algebra_simps)

lemma TimeClip_small: "\<bar>t\<bar> \<le> 8640000000000000 \<Longrightarrow> TimeClip t = Some t"
  by (simp add: TimeClip_def)

lemma midnight:
  "setHours tza (Some 0) (Some 0) 0 0 (Some t) = TimeClip (localDay tza t * msPerDay - tza)"
  by (simp add: setHours_def MakeDate_def MakeTime_def UTC_def localDay_def)

lemma midnight_clock:
  assumes "clockInRange t" "\<bar>tza\<bar> \<le> msPerDay"
  shows "setHours tza (Some 0) (Some 0) 0 0 (Some t) = Some (localDay tza t * msPerDay - tza)"
proof -
  have "msPerDay * localDay tza t \<le> t + tza" "t + tza < msPerDay * localDay tza t + msPerDay"
    using Day_bounds [of "t + tza"] by (simp_all add: localDay_def LocalTime_def)
  then have "\<bar>localDay tza t * msPerDay - tza\<bar> \<le> 8640000000000000"
    using assms by (simp add: clockInRange_def msPerDay_def abs_le_iff)
  then show ?thesis by (simp add: midnight TimeClip_small)
qed

lemma Date_of_date:
  assumes "eventDay a = Some D"
  shows "Date_of tza (date a) = Some (D * msPerDay)"
proof -
  from assms obtain d where d: "date a = Some d" "parseIsoDate d = Some D"
    by (auto simp: eventDay_def split: option.splits)
  from parseIsoDate_bounds [OF d(2)] have "\<bar>D * msPerDay\<bar> \<le> 8640000000000000" "length d = 10"
    by (simp_all add: msPerDay_def abs_le_iff)
  with d show ?thesis
    by (simp add: Date_of_def Date_parse_def MakeDate_def TimeClip_small)
qed

lemma eventDate_midnight:
  assumes "eventDay a = Some D" "\<bar>tza\<bar> \<le> msPerDay"
  shows "setHours tza (Some 0) (Some 0) 0 0 (Date_of tza (date a))
           = Some (Day (D * msPerDay + tza) * msPerDay - tza)"
proof -
  from assms(1) obtain d where d: "date a = Some d" "parseIsoDate d = Some D"
    by (auto simp: eventDay_def split: option.splits)
  have "msPerDay * Day (D * msPerDay + tza) \<le> D * msPerDay + tza"
    "D * msPerDay + tza < msPerDay * Day (D * msPerDay + tza) + msPerDay"
    using Day_bounds [of "D * msPerDay + tza"] by simp_all
  with parseIsoDate_bounds(1,2) [OF d(2)] assms(2)
  have "\<bar>Day (D * msPerDay + tza) * msPerDay - tza\<bar> \<le> 8640000000000000"
    by (simp add: msPerDay_def abs_le_iff)
  then show ?thesis
    by (simp add: Date_of_date [OF assms(1)] midnight localDay_def LocalTime_def TimeClip_small)
qed

lemma eventTimestamp_wellFormed:
  assumes "eventDay a = Some D" "eventTime a = Some tm" "\<bar>tza\<bar> \<le> msPerDay"
  shows "eventTimestamp tza a = Some (D * msPerDay + tm - tza)"
proof -
  from assms obtain d t where d: "date a = Some d" "parseIsoDate d = Some D"
    and t: "time a = Some t" "parseIsoTime t = Some tm"
    by (auto simp: eventDay_def eventTime_def split: option.splits)
  from parseIsoDate_bounds [OF d(2)] parseIsoTime_parts(2,3,4) [OF t(2)]
  have len: "length d = 10" "length t = 5"
    and b: "\<bar>D * msPerDay + tm - tza\<bar> \<le> 8640000000000000"
    using assms(3) by (simp_all add: msPerDay_def abs_le_iff)
  from len have "length (d @ ''T'' @ t) = 16" "(d @ ''T'' @ t) ! 10 = CHR ''T''"
    "take 10 (d @ ''T'' @ t) = d" "drop 11 (d @ ''T'' @ t) = t"
    by (simp_all add: nth_append)
  then have "Date_parse tza (d @ ''T'' @ t) = TimeClip (UTC tza (MakeDate D tm))"
    using d(2) t(2) by (simp add: Date_parse_def)
  with b d(1) t(1) show ?thesis
    by (simp add: eventTimestamp_def getTime_def interpolate_def UTC_def MakeDate_def
          TimeClip_small)
qed

text \<open>What the callback of the matcher computes for a well-formed event: the date is
  shifted to the local day that contains its UTC midnight, and only then compared with
  today.\<close>

lemma isMatchingUpcoming_wellFormed:
  assumes D: "eventDay a = Some D" and tm: "eventTime a = Some tm"
      and tza: "\<bar>tza\<bar> \<le> msPerDay" and now: "clockInRange now"
  shows "isMatchingUpcoming tza now label a =
     Inr (labelMatches label a \<and>
          (if Day (D * msPerDay + tza) = localDay tza now
           then now < localDay tza now * msPerDay + tm - tza
           else localDay tza now < Day (D * msPerDay + tza)))"
proof -
  let ?T = "localDay tza now" and ?D' = "Day (D * msPerDay + tza)"
  from tm obtain t where t: "time a = Some t" "parseIsoTime t = Some tm"
    by (auto simp: eventTime_def split: option.splits)
  from parseIsoTime_parts(1) [OF t(2)] obtain h m where
    hm: "map Number (split CHR '':'' t) = [Some h, Some m]" "tm = MakeTime h m 0 0"
    by auto
  have today: "setHours tza (Some 0) (Some 0) 0 0 (Some now) = Some (?T * msPerDay - tza)"
    by (rule midnight_clock [OF now tza])
  have eventDate: "setHours tza (Some 0) (Some 0) 0 0 (Date_of tza (date a))
           = Some (?D' * msPerDay - tza)"
    by (rule eventDate_midnight [OF D tza])
  have Tb: "msPerDay * ?T \<le> now + tza" "now + tza < msPerDay * ?T + msPerDay"
    using Day_bounds [of "now + tza"] by (simp_all add: localDay_def LocalTime_def)
  from parseIsoTime_parts(2,3) [OF t(2)] Tb now tza
  have "\<bar>?T * msPerDay + tm - tza\<bar> \<le> 8640000000000000"
    by (simp add: clockInRange_def msPerDay_def abs_le_iff)
  then have eventDateTime: "setHours tza (Some h) (Some m) 0 0 (Some now)
      = Some (?T * msPerDay + tm - tza)"
    by (simp add: setHours_def hm(2) MakeDate_def UTC_def TimeClip_small localDay_def)
  have ds: "toDateString tza (Some (x * msPerDay - tza)) = Some x" for x
    by (simp add: toDateString_def LocalTime_def Day_def msPerDay_def)
  have cmp: "(?D' * msPerDay - tza > ?T * msPerDay - tza) = (?T < ?D')"
    by (simp add: msPerDay_def)
  show ?thesis
    unfolding isMatchingUpcoming_def Let_def today eventDate ds
    by (simp add: t(1) hm(1) eventDateTime gt_def getTime_def labelMatches_def cmp)
qed

lemma isMatchingUpcoming_east:
  assumes "eventDay a = Some D" "eventTime a = Some tm" "0 \<le> tza" "tza < msPerDay"
      and "clockInRange now"
  shows "isMatchingUpcoming tza now label a =
     Inr (labelMatches label a \<and> now < D * msPerDay + tm - tza)"
proof -
  have tza: "\<bar>tza\<bar> \<le> msPerDay" using assms(3,4) by simp
  have D': "Day (D * msPerDay + tza) = D" by (rule Day_of_date_east [OF assms(3,4)])
  from assms(2) obtain t where t: "time a = Some t" "parseIsoTime t = Some tm"
    by (auto simp: eventTime_def split: option.splits)
  note tmb = parseIsoTime_parts(2,3) [OF t(2)]
  have Tb: "msPerDay * localDay tza now \<le> now + tza"
    "now + tza < msPerDay * localDay tza now + msPerDay"
    using Day_bounds [of "now + tza"] by (simp_all add: localDay_def LocalTime_def)
  have "(if D = localDay tza now then now < localDay tza now * msPerDay + tm - tza
         else localDay tza now < D) = (now < D * msPerDay + tm - tza)"
  proof (cases "D = localDay tza now")
    case True
    then show ?thesis by simp
  next
    case False
    show ?thesis
    proof (cases "localDay tza now < D")
      case True
      then have "msPerDay * localDay tza now + msPerDay \<le> msPerDay * D"
        by (simp add: msPerDay_def)
      with Tb tmb True False show ?thesis by (simp add: mult.commute)
    next
      case nlt: False
      with False have "msPerDay * D + msPerDay \<le> msPerDay * localDay tza now"
        by (simp add: msPerDay_def)
      with Tb tmb nlt False show ?thesis by (simp add: mult.commute)
    qed
  qed
  then show ?thesis
    unfolding isMatchingUpcoming_wellFormed [OF assms(1,2) tza assms(5), unfolded D']
    by (simp only:)
qed

lemma isMatchingUpcoming_future:
  assumes "eventDay a = Some D" "eventTime a = Some tm" "- msPerDay \<le> tza" "tza < msPerDay"
      and "clockInRange now" and "isMatchingUpcoming tza now label a = Inr True"
  shows "labelMatches label a \<and> now < D * msPerDay + tm - tza"
proof (cases "0 \<le> tza")
  case True
  from isMatchingUpcoming_east [OF assms(1,2) True assms(4,5), of label] assms(6)
  show ?thesis by simp
next
  case False
  then have neg: "tza < 0" by simp
  have tza: "\<bar>tza\<bar> \<le> msPerDay" using assms(3,4) by simp
  have D': "Day (D * msPerDay + tza) = D - 1" by (rule Day_of_date_west [OF assms(3) neg])
  from assms(2) obtain t where t: "time a = Some t" "parseIsoTime t = Some tm"
    by (auto simp: eventTime_def split: option.splits)
  note tmb = parseIsoTime_parts(2,3) [OF t(2)]
  have Tb: "msPerDay * localDay tza now \<le> now + tza"
    "now + tza < msPerDay * localDay tza now + msPerDay"
    using Day_bounds [of "now + tza"] by (simp_all add: localDay_def LocalTime_def)
  from isMatchingUpcoming_wellFormed [OF assms(1,2) tza assms(5), of label, unfolded D'] assms(6)
  have l: "labelMatches label a"
    and c: "if D - 1 = localDay tza now then now < localDay tza now * msPerDay + tm - tza
         else localDay tza now < D - 1"
    by simp_all
  have "now < D * msPerDay + tm - tza"
  proof (cases "D - 1 = localDay tza now")
    case True
    with c have "now < (D - 1) * msPerDay + tm - tza" by simp
    then show ?thesis by (simp add: msPerDay_def algebra_simps)
  next
    case False
    with c have "localDay tza now < D - 1" by simp
    then have "msPerDay * localDay tza now + msPerDay \<le> msPerDay * (D - 1)"
      by (simp add: msPerDay_def)
    with Tb tmb show ?thesis by (simp add: msPerDay_def algebra_simps)
  qed
  with l show ?thesis by simp
qed

text \<open>West of UTC an event of today is never matched, whatever its time.\<close>

lemma same_day_west:
  assumes "eventDay a = Some (localDay tza now)" "eventTime a = Some tm"
      and "- msPerDay \<le> tza" "tza < 0" "clockInRange now"
  shows "isMatchingUpcoming tza now label a = Inr False"
proof -
  have tza: "\<bar>tza\<bar> \<le> msPerDay" using assms(3,4) by simp
  have "Day (localDay tza now * msPerDay + tza) = localDay tza now - 1"
    by (rule Day_of_date_west [OF assms(3,4)])
  then show ?thesis
    by (simp add: isMatchingUpcoming_wellFormed [OF assms(1,2) tza assms(5)])
qed

text \<open>East of UTC, and at UTC, an event of today is matched exactly when its time of day is
  later than the clock's.\<close>

lemma same_day_east:
  assumes "eventDay a = Some (localDay tza now)" "eventTime a = Some tm"
      and "0 \<le> tza" "tza < msPerDay" "clockInRange now" "labelMatches label a"
  shows "isMatchingUpcoming tza now label a =
           Inr (LocalTime tza now - localDay tza now * msPerDay < tm)"
proof -
  have "(now < localDay tza now * msPerDay + tm - tza)
      = (LocalTime tza now - localDay tza now * msPerDay < tm)"
    by (auto simp: LocalTime_def)
  then show ?thesis
    by (simp add: isMatchingUpcoming_east [OF assms(1,2,3,4,5)] assms(6))
qed

section \<open>Filtering and sorting\<close>

lemma filterThrowing_total:
  "\<forall>x \<in> set xs. p x = Inr (q x) \<Longrightarrow> filterThrowing p xs = Inr (filter q xs)"
  by (induction xs) auto

lemma insertBy_set: "set (insertBy cmp x ys) = insert x (set ys)"
  by (induction ys) auto

lemma sortBy_set: "set (sortBy cmp xs) = set xs"
  unfolding sortBy_def by (induction xs) (auto simp: insertBy_set)

lemma insertBy_insort:
  assumes "\<forall>a \<in> insert x (set ys). k a \<noteq> None"
      and "\<forall>a b. cmp a b = (case (k a, k b) of (Some u, Some v) \<Rightarrow> Some (u - v) | _ \<Rightarrow> None)"
  shows "insertBy cmp x ys = insort_key (\<lambda>a. the (k a)) x ys"
  using assms(1)
proof (induction ys)
  case Nil
  then show ?case by simp
next
  case (Cons y ys)
  then obtain u v where "k x = Some u" "k y = Some v" by auto
  with Cons assms(2) show ?case by simp
qed

lemma sortBy_sort_key:
  assumes "\<forall>a \<in> set xs. k a \<noteq> None"
      and "\<forall>a b. cmp a b = (case (k a, k b) of (Some u, Some v) \<Rightarrow> Some (u - v) | _ \<Rightarrow> None)"
  shows "sortBy cmp xs = sort_key (\<lambda>a. the (k a)) xs"
  using assms(1)
proof (induction xs)
  case Nil
  then show ?case by (simp add: sortBy_def)
next
  case (Cons x xs)
  then have ih: "sortBy cmp xs = sort_key (\<lambda>a. the (k a)) xs" by simp
  have "sortBy cmp (x # xs) = insertBy cmp x (sortBy cmp xs)" by (simp add: sortBy_def)
  also have "\<dots> = insort_key (\<lambda>a. the (k a)) x (sortBy cmp xs)"
    using Cons.prems by (intro insertBy_insort assms(2)) (simp add: sortBy_set)
  finally show ?case by (simp add: ih)
qed

lemma sort_key_first:
  assumes "sort_key f xs = y # ys"
  shows "y \<in> set xs" "\<forall>z \<in> set xs. f y \<le> f z"
proof -
  have "set (sort_key f xs) = set xs" by simp
  with assms show "y \<in> set xs" by auto
  have "sorted (map f (sort_key f xs))" by simp
  with assms have "\<forall>z \<in> set ys. f y \<le> f z" by auto
  moreover have "set xs = insert y (set ys)"
    using \<open>set (sort_key f xs) = set xs\<close> assms by auto
  ultimately show "\<forall>z \<in> set xs. f y \<le> f z" by auto
qed

lemma compareEvents_key:
  "\<forall>a b. compareEvents tza a b =
     (case (eventTimestamp tza a, eventTimestamp tza b) of
        (Some u, Some v) \<Rightarrow> Some (u - v) | _ \<Rightarrow> None)"
  by (simp add: compareEvents_def)

lemma isMatchingUpcoming_total:
  assumes "wellFormed a" "\<bar>tza\<bar> \<le> msPerDay" "clockInRange now"
  shows "isMatchingUpcoming tza now label a = Inr (isMatchingUpcoming tza now label a = Inr True)"
proof -
  from assms(1) obtain D tm where "eventDay a = Some D" "eventTime a = Some tm"
    by (auto simp: wellFormed_def)
  from isMatchingUpcoming_wellFormed [OF this assms(2,3), of label] show ?thesis by simp
qed

text \<open>What the effect suggests, on well-formed events: the first of the events that the
  callback keeps, ordered by timestamp.\<close>

lemma proactiveSuggestion_wellFormed:
  assumes wf: "\<forall>a \<in> set evs. wellFormed a" and tza: "\<bar>tza\<bar> \<le> msPerDay"
      and now: "clockInRange now"
  shows "proactiveSuggestion tza now label evs =
     (if label = [] \<or> evs = [] then Inr None
      else case sort_key (\<lambda>a. the (eventTimestamp tza a))
                  (filter (\<lambda>a. isMatchingUpcoming tza now label a = Inr True) evs) of
             [] \<Rightarrow> Inr None
           | suggested # _ \<Rightarrow> Inr (Some suggested))"
proof -
  let ?q = "\<lambda>a. isMatchingUpcoming tza now label a = Inr True"
  have f: "filterThrowing (isMatchingUpcoming tza now label) evs = Inr (filter ?q evs)"
    using wf isMatchingUpcoming_total [OF _ tza now]
    by (intro filterThrowing_total) auto
  have ts: "\<forall>a \<in> set (filter ?q evs). eventTimestamp tza a \<noteq> None"
  proof
    fix a assume "a \<in> set (filter ?q evs)"
    then have "wellFormed a" using wf by simp
    then obtain D tm where "eventDay a = Some D" "eventTime a = Some tm"
      by (auto simp: wellFormed_def)
    from eventTimestamp_wellFormed [OF this tza] show "eventTimestamp tza a \<noteq> None" by simp
  qed
  have "sortBy (compareEvents tza) (filter ?q evs)
      = sort_key (\<lambda>a. the (eventTimestamp tza a)) (filter ?q evs)"
    using ts compareEvents_key by (rule sortBy_sort_key)
  then show ?thesis
    by (simp add: proactiveSuggestion_def matchingUpcomingEvents_def f split: list.splits)
qed

text \<open>In every time zone, the matcher never suggests an event that is not in the future,
  and the suggested event carries the label.\<close>

lemma matcher_never_past:
  assumes wf: "\<forall>a \<in> set evs. wellFormed a"
      and tza: "- msPerDay \<le> tza" "tza < msPerDay" and now: "clockInRange now"
      and r: "proactiveSuggestion tza now label evs = Inr (Some a)"
  shows "a \<in> set evs \<and> labelMatches label a
       \<and> (\<exists>ts. eventTimestamp tza a = Some ts \<and> now < ts)"
proof -
  have abs: "\<bar>tza\<bar> \<le> msPerDay" using tza by simp
  let ?q = "\<lambda>a. isMatchingUpcoming tza now label a = Inr True"
  from r obtain rest where
    "sort_key (\<lambda>a. the (eventTimestamp tza a)) (filter ?q evs) = a # rest"
    unfolding proactiveSuggestion_wellFormed [OF wf abs now]
    by (auto split: if_splits list.splits)
  from sort_key_first(1) [OF this] have a: "a \<in> set evs" "?q a" by simp_all
  with wf obtain D tm where d: "eventDay a = Some D" "eventTime a = Some tm"
    by (auto simp: wellFormed_def)
  from isMatchingUpcoming_future [OF d tza now a(2)] eventTimestamp_wellFormed [OF d abs] a(1)
  show ?thesis by simp
qed

text \<open>East of UTC, and at UTC, the matcher suggests the earliest of the events that carry
  the label and lie in the future, and none only when there is no such event.\<close>

lemma matcher_earliest_east:
  assumes wf: "\<forall>a \<in> set evs. wellFormed a"
      and tza: "0 \<le> tza" "tza < msPerDay" and now: "clockInRange now" and label: "label \<noteq> []"
  shows "case proactiveSuggestion tza now label evs of
           Inl e \<Rightarrow> False
         | Inr None \<Rightarrow>
             \<forall>b \<in> set evs. \<not> (labelMatches label b \<and> gt (eventTimestamp tza b) (Some now))
         | Inr (Some a) \<Rightarrow>
             a \<in> set evs \<and> labelMatches label a \<and> gt (eventTimestamp tza a) (Some now)
             \<and> (\<forall>b \<in> set evs.
                   labelMatches label b \<and> gt (eventTimestamp tza b) (Some now) \<longrightarrow>
                   the (eventTimestamp tza a) \<le> the (eventTimestamp tza b))"
proof -
  have abs: "\<bar>tza\<bar> \<le> msPerDay" using tza by simp
  let ?q = "\<lambda>a. isMatchingUpcoming tza now label a = Inr True"
  let ?k = "\<lambda>a. the (eventTimestamp tza a)"
  have q: "?q b = (labelMatches label b \<and> gt (eventTimestamp tza b) (Some now))"
    if "b \<in> set evs" for b
  proof -
    from that wf obtain D tm where d: "eventDay b = Some D" "eventTime b = Some tm"
      by (auto simp: wellFormed_def)
    from isMatchingUpcoming_east [OF d tza now, of label] eventTimestamp_wellFormed [OF d abs]
    show ?thesis by (simp add: gt_def)
  qed
  show ?thesis
  proof (cases "sort_key ?k (filter ?q evs)")
    case Nil
    then have "filter ?q evs = []"
      by (metis length_sort list.size(3) length_0_conv)
    then have "\<forall>b \<in> set evs. \<not> ?q b" by (simp add: filter_empty_conv)
    with q have "\<forall>b \<in> set evs. \<not> (labelMatches label b \<and> gt (eventTimestamp tza b) (Some now))"
      by blast
    moreover have "proactiveSuggestion tza now label evs = Inr None"
      unfolding proactiveSuggestion_wellFormed [OF wf abs now] using Nil by simp
    ultimately show ?thesis by simp
  next
    case (Cons a rest)
    from sort_key_first [OF Cons] have a: "a \<in> set evs" "?q a"
      and least: "\<forall>z \<in> set (filter ?q evs). ?k a \<le> ?k z"
      by simp_all
    from a have ne: "evs \<noteq> []" by auto
    have r: "proactiveSuggestion tza now label evs = Inr (Some a)"
      unfolding proactiveSuggestion_wellFormed [OF wf abs now] using Cons ne label by simp
    from a q have "labelMatches label a \<and> gt (eventTimestamp tza a) (Some now)" by blast
    moreover have "\<forall>b \<in> set evs.
                   labelMatches label b \<and> gt (eventTimestamp tza b) (Some now) \<longrightarrow> ?k a \<le> ?k b"
      using least q by auto
    ultimately show ?thesis using a(1) by (simp add: r)
  qed
qed

section \<open>The day filter\<close>

text \<open>The day filter keeps the events whose date, shifted to the local day that contains its
  UTC midnight, is the selected day.\<close>

lemma filteredEvents_wellFormed:
  assumes wf: "\<forall>a \<in> set evs. eventDay a \<noteq> None" and tza: "\<bar>tza\<bar> \<le> msPerDay"
      and sel: "clockInRange selected"
  shows "filteredEvents tza (Some selected) evs =
     filter (\<lambda>a. Day (the (eventDay a) * msPerDay + tza) = localDay tza selected) evs"
proof -
  have n: "setHours tza (Some 0) (Some 0) 0 0 (Some selected)
      = Some (localDay tza selected * msPerDay - tza)"
    by (rule midnight_clock [OF sel tza])
  have "strictEq (getTime (setHours tza (Some 0) (Some 0) 0 0 (Date_of tza (date a))))
          (getTime (Some (localDay tza selected * msPerDay - tza)))
      = (Day (the (eventDay a) * msPerDay + tza) = localDay tza selected)"
    if "a \<in> set evs" for a
  proof -
    from that wf obtain D where D: "eventDay a = Some D" by auto
    show ?thesis
      by (simp add: eventDate_midnight [OF D tza] D strictEq_def getTime_def msPerDay_def)
  qed
  then show ?thesis
    unfolding filteredEvents_def Let_def n by (intro filter_cong) auto
qed

lemma day_filter_east:
  assumes "\<forall>a \<in> set evs. eventDay a \<noteq> None" "0 \<le> tza" "tza < msPerDay"
      and "clockInRange selected"
  shows "filteredEvents tza (Some selected) evs =
     filter (\<lambda>a. eventDay a = Some (localDay tza selected)) evs"
proof -
  have abs: "\<bar>tza\<bar> \<le> msPerDay" using assms(2,3) by simp
  show ?thesis
    unfolding filteredEvents_wellFormed [OF assms(1) abs assms(4)]
    using assms(1) by (intro filter_cong) (auto simp: Day_of_date_east [OF assms(2,3)])
qed

text \<open>West of UTC the day filter shows the events of the day after the selected one.\<close>

lemma day_filter_west:
  assumes "\<forall>a \<in> set evs. eventDay a \<noteq> None" "- msPerDay \<le> tza" "tza < 0"
      and "clockInRange selected"
  shows "filteredEvents tza (Some selected) evs =
     filter (\<lambda>a. eventDay a = Some (localDay tza selected + 1)) evs"
proof -
  have abs: "\<bar>tza\<bar> \<le> msPerDay" using assms(2,3) by simp
  show ?thesis
    unfolding filteredEvents_wellFormed [OF assms(1) abs assms(4)]
    using assms(1) by (intro filter_cong) (auto simp: Day_of_date_west [OF assms(2,3)])
qed

section \<open>The matcher and the day filter west of UTC\<close>

text \<open>
  Claim C5 fails on the code in a time zone west of UTC. \<open>new Date("2025-08-04")\<close> is
  midnight UTC, which five hours west of UTC is 19:00 of August 3; \<open>setHours(0, 0, 0, 0)\<close>
  then gives the local midnight of August 3. With August 4 selected in the grid, the filter
  drops the event of August 4 and shows the event of August 5. The lemmas
  \<open>day_filter_east\<close> and \<open>day_filter_west\<close> give the general form: the filter is right
  from UTC eastwards and one day off west of UTC.
\<close>

theorem day_filter_wrong_day_west:
  "filteredEvents utcMinus5 (Date_ymd utcMinus5 2025 7 4)
     [sampleEvent ''a'' ''2025-08-04'' ''10:00'' ''gym'',
      sampleEvent ''b'' ''2025-08-05'' ''10:00'' ''gym'']
     = [sampleEvent ''b'' ''2025-08-05'' ''10:00'' ''gym'']
   \<and> handleDayClick utcMinus5 2025 7 (Some 4) = Some (Date_ymd utcMinus5 2025 7 4)
   \<and> toDateString utcMinus5 (Date_ymd utcMinus5 2025 7 4) = Some (MakeDay 2025 7 4)
   \<and> eventDay (sampleEvent ''a'' ''2025-08-04'' ''10:00'' ''gym'') = Some (MakeDay 2025 7 4)"
  by code_simp

text \<open>
  Claim C7 fails on the code in a time zone west of UTC. Five hours west of UTC, at 13:00 of
  August 4, an event of August 4 at 14:00 with the matching label is not suggested: its date
  is taken for August 3, so the branch that compares the time of day with the clock is not
  reached. The lemmas \<open>same_day_east\<close> and \<open>same_day_west\<close> give the general form, and
  \<open>same_day_example_utc\<close> the example of the claim at UTC, where it holds.
\<close>

theorem same_day_event_unmatched_west:
  "proactiveSuggestion utcMinus5 aug4_1300_utcMinus5 ''gym''
     [sampleEvent ''a'' ''2025-08-04'' ''14:00'' ''gym''] = Inr None
   \<and> aug4_1300_utcMinus5 = UTC utcMinus5 (MakeDate (MakeDay 2025 7 4) (MakeTime 13 0 0 0))
   \<and> eventTimestamp utcMinus5 (sampleEvent ''a'' ''2025-08-04'' ''14:00'' ''gym'')
       = Some (UTC utcMinus5 (MakeDate (MakeDay 2025 7 4) (MakeTime 14 0 0 0)))"
  by code_simp

text \<open>
  Claim C4 fails on the code in a time zone west of UTC. Five hours west of UTC, at 13:00 of
  August 4, with an event of August 4 at 14:00 and an event of August 6 at 10:00 that both
  carry the label, the matcher suggests the event of August 6, though the event of August 4
  is in the future and earlier. The first half of the claim holds in every zone (lemma
  \<open>matcher_never_past\<close>), and the whole claim from UTC eastwards (lemma
  \<open>matcher_earliest_east\<close>).
\<close>

theorem matcher_skips_earliest_west:
  "proactiveSuggestion utcMinus5 aug4_1300_utcMinus5 ''gym''
     [sampleEvent ''a'' ''2025-08-04'' ''14:00'' ''gym'',
      sampleEvent ''b'' ''2025-08-06'' ''10:00'' ''gym'']
     = Inr (Some (sampleEvent ''b'' ''2025-08-06'' ''10:00'' ''gym''))
   \<and> labelMatches ''gym'' (sampleEvent ''a'' ''2025-08-04'' ''14:00'' ''gym'')
   \<and> gt (eventTimestamp utcMinus5 (sampleEvent ''a'' ''2025-08-04'' ''14:00'' ''gym''))
         (Some aug4_1300_utcMinus5)
   \<and> gt (eventTimestamp utcMinus5 (sampleEvent ''b'' ''2025-08-06'' ''10:00'' ''gym''))
         (eventTimestamp utcMinus5 (sampleEvent ''a'' ''2025-08-04'' ''14:00'' ''gym''))"
  by code_simp

lemma same_day_example_utc:
  "proactiveSuggestion 0 (MakeDate (MakeDay 2025 7 4) (MakeTime 13 0 0 0)) ''gym''
     [sampleEvent ''a'' ''2025-08-04'' ''14:00'' ''Gym'']
     = Inr (Some (sampleEvent ''a'' ''2025-08-04'' ''14:00'' ''Gym''))"
  "proactiveSuggestion 0 (MakeDate (MakeDay 2025 7 4) (MakeTime 15 0 0 0)) ''gym''
     [sampleEvent ''a'' ''2025-08-04'' ''14:00'' ''Gym''] = Inr None"
  by code_simp+

end
